theory Spec2Isabelle
  imports Complex_Main "HOL-Library.AList"
begin

section \<open>JavaScript values\<close>

text \<open>
  The router is JavaScript. Where the code tests \<open>typeof\<close>, compares with \<open>===\<close>
  or reads a property that an object may lack, the model works on the values below.
  \<open>Obj props\<close> is an object as an object literal or \<open>JSON.parse\<close> makes it: \<open>props\<close>
  are its own enumerable properties, in the order in which \<open>for (h in obj)\<close> visits
  them, and its prototype is \<open>Object.prototype\<close>. An object with another prototype,
  or with none, is not a value of this type. \<open>Fun\<close> is a function, of which the
  model knows nothing but that it is one.

  \<open>jsget\<close> reads an own property and gives \<open>Undefined\<close> when there is none.
  That is what \<open>obj[name]\<close> gives for every name but those that \<open>Object.prototype\<close>
  defines (\<open>objectPrototypeMethods\<close> and \<open>__proto__\<close>); the definitions that
  read or write a property under a name that comes from the input (\<open>this.hosts[n]\<close>,
  \<open>routeTables[r]\<close>, \<open>base.hasOwnProperty\<close>, \<open>mh[h.toLowerCase()]\<close>) say what
  happens at those names.
\<close>

datatype jsnum = NaN | PosInf | NegInf | Fin real

datatype jsval =
    Undefined
  | Null
  | Bool bool
  | Num jsnum
  | Str string
  | Obj "(string \<times> jsval) list"
  | Fun

datatype exn = TypeError | Error string

definition jsget :: "(string \<times> jsval) list \<Rightarrow> string \<Rightarrow> jsval" where
  "jsget props name = (case map_of props name of Some v \<Rightarrow> v | None \<Rightarrow> Undefined)"

text \<open>The properties of \<open>Object.prototype\<close> that are functions; \<open>__proto__\<close>, the
  one that is not, is an accessor: reading it gives the prototype of the object, and
  assigning to it changes the prototype when the value is an object or \<open>null\<close>, and
  does nothing otherwise.\<close>

definition objectPrototypeMethods :: "string list" where
  "objectPrototypeMethods =
     [''constructor'', ''__defineGetter__'', ''__defineSetter__'', ''hasOwnProperty'',
      ''__lookupGetter__'', ''__lookupSetter__'', ''isPrototypeOf'',
      ''propertyIsEnumerable'', ''toString'', ''valueOf'', ''toLocaleString'']"

text \<open>\<open>v.length\<close>: the number of code units of a string, a TypeError on
  \<open>undefined\<close> and \<open>null\<close>, and \<open>undefined\<close> on the other primitives.\<close>

fun js_length :: "jsval \<Rightarrow> exn + jsval" where
  "js_length Undefined = Inl TypeError"
| "js_length Null = Inl TypeError"
| "js_length (Str s) = Inr (Num (Fin (real (length s))))"
| "js_length (Obj props) = Inr (jsget props ''length'')"
| "js_length v = Inr Undefined"

text \<open>Strict equality \<open>===\<close> with a string, respectively a number, on the left.\<close>

fun str_eq :: "string \<Rightarrow> jsval \<Rightarrow> bool" where
  "str_eq s (Str t) = (s = t)"
| "str_eq s v = False"

fun num_eq :: "jsnum \<Rightarrow> jsval \<Rightarrow> bool" where
  "num_eq NaN v = False"
| "num_eq n (Num m) = (n = m)"
| "num_eq n v = False"

text \<open>\<open>String.prototype.toLowerCase\<close> on code units below 256: the ASCII capitals
  and the Latin-1 capitals (U+00C0 to U+00DE without the multiplication sign).\<close>

definition lower_char :: "char \<Rightarrow> char" where
  "lower_char c =
     (let n = (of_char c :: nat)
      in if (65 \<le> n \<and> n \<le> 90) \<or> (192 \<le> n \<and> n \<le> 222 \<and> n \<noteq> 215)
         then char_of (n + 32) else c)"

definition toLowerCase :: "string \<Rightarrow> string" where
  "toLowerCase s = map lower_char s"

section \<open>utils: methods and runtime checks\<close>

definition writeMethods :: "string list" where
  "writeMethods = [''POST'', ''PUT'', ''DELETE'', ''LOCK'', ''MERGE'', ''MKACTIVITY'',
     ''MKCOL'', ''MOVE'', ''PATCH'', ''PURGE'', ''UNLOCK'', ''UNSUBSCRIBE'']"

text \<open>\<open>writeMethods.indexOf(v) !== -1\<close>: \<open>indexOf\<close> compares with \<open>===\<close>.\<close>

definition isWriteMethodValue :: "jsval \<Rightarrow> bool" where
  "isWriteMethodValue v = (\<exists>m \<in> set writeMethods. str_eq m v)"

text \<open>
  A compiled route, with the runtime filters as \<open>RouteTable\<close> leaves them: the three
  string filters are strings (empty when unset), \<open>portMatch\<close> is a number (0 when
  unset) and \<open>allowWrite\<close> is whatever the declaration carried. \<open>postMatchRE\<close> is the
  compiled regular expression, as the test \<open>s.search(re) !== -1\<close>. The action gets
  the request and the match arguments (the route it also receives is the one it is
  stored in); it returns a value or throws.
\<close>

record args =
  arg0 :: string
  arg1 :: string
  key :: string

datatype action_result = Returned jsval | Threw string

record rom_request =
  auth :: "string option"
  hash :: "string option"
  hostname :: string
  href :: string
  "method" :: string
  normalizedPath :: string
  path :: string
  port :: jsval
  proto :: string
  query :: "string option"
  routePass :: nat
  url :: string

record route =
  on :: string
  methodMatch :: string
  hostMatch :: string
  protoMatch :: string
  portMatch :: jsnum
  allowWrite :: jsval
  forceProto :: string
  forcePort :: jsval
  postMatchRE :: "(string \<Rightarrow> bool) option"
  action :: "rom_request \<Rightarrow> args \<Rightarrow> action_result"

text \<open>
  The properties of a \<open>RomRequest\<close> that the constructor and \<open>process\<close> assign and
  that the model reads. (They also assign \<open>body\<close>, \<open>dnsLookup\<close>, \<open>headerHost\<close>,
  \<open>headers\<close>, \<open>hostConfig\<close>, \<open>hostTable\<close>, \<open>isXhr\<close>, \<open>log\<close>, \<open>logger\<close>, \<open>logMeta\<close>,
  \<open>logPrefix\<close>, \<open>onSent\<close>, \<open>protoVer\<close>, \<open>queryParams\<close>, \<open>serverNext\<close>,
  \<open>serverPort\<close>, \<open>serverProto\<close>, \<open>serverRequest\<close>, \<open>serverResponse\<close>,
  \<open>settings\<close>, \<open>timeout\<close> and \<open>type\<close>, and the prototype holds the methods.)
  The scheme is stored under \<open>proto\<close>. \<open>auth\<close>, \<open>hash\<close> and \<open>query\<close> come from
  \<open>Url.parse\<close>, which gives a string or \<open>null\<close>; \<open>port\<close> comes from
  \<open>portFromUrlObject\<close>, which gives the string \<open>url.port\<close> or a number.
\<close>

definition nullable :: "string option \<Rightarrow> jsval" where
  "nullable v = (case v of Some s \<Rightarrow> Str s | None \<Rightarrow> Null)"

definition RomRequest_props :: "rom_request \<Rightarrow> (string \<times> jsval) list" where
  "RomRequest_props req =
     [(''auth'', nullable (auth req)), (''hash'', nullable (hash req)),
      (''hostname'', Str (hostname req)),
      (''href'', Str (href req)), (''method'', Str (method req)),
      (''normalizedPath'', Str (normalizedPath req)), (''path'', Str (path req)),
      (''port'', port req), (''proto'', Str (proto req)),
      (''query'', nullable (query req)),
      (''routePass'', Num (Fin (real (routePass req)))), (''url'', Str (url req))]"

definition req_get :: "rom_request \<Rightarrow> string \<Rightarrow> jsval" where
  "req_get req name = jsget (RomRequest_props req) name"

definition doRuntimeChecks :: "rom_request \<Rightarrow> route \<Rightarrow> bool" where
  "doRuntimeChecks req r =
     (if (length (methodMatch r) \<noteq> 0 \<and> \<not> str_eq (methodMatch r) (req_get req ''method'')) \<or>
         (allowWrite r \<noteq> Bool True \<and> length (methodMatch r) = 0 \<and>
            isWriteMethodValue (req_get req ''method'')) \<or>
         (\<not> num_eq (portMatch r) (Num (Fin 0)) \<and> \<not> num_eq (portMatch r) (req_get req ''port'')) \<or>
         (length (hostMatch r) \<noteq> 0 \<and> \<not> str_eq (hostMatch r) (req_get req ''hostname'')) \<or>
         (length (protoMatch r) \<noteq> 0 \<and> \<not> str_eq (protoMatch r) (req_get req ''protocol''))
      then False else True)"

section \<open>TrieRoute\<close>

text \<open>
  A trie node is a JavaScript object keyed by single characters, with the two
  terminal markers \<open>|W\<close> (prefix match) and \<open>|X\<close> (exact match) beside them.
  \<open>add\<close> stores the route under \<open>.val\<close> of a marker as soon as it creates the
  marker, so a marker that is present holds a route.
\<close>

datatype trie =
  Node (prefixTerminal: "route option") (exactTerminal: "route option")
       (children: "(char \<times> trie) list")

record find_result =
  data :: route
  match :: string

text \<open>A terminal marker that is present and whose route passes the runtime checks.\<close>

definition passing :: "rom_request \<Rightarrow> route option \<Rightarrow> route option" where
  "passing req marker =
     (case marker of
        Some r \<Rightarrow> if doRuntimeChecks req r then Some r else None
      | None \<Rightarrow> None)"

function parseWord :: "rom_request \<Rightarrow> string \<Rightarrow> trie \<Rightarrow> nat \<Rightarrow> find_result option" where
  "parseWord req word node depth =
     (case passing req (prefixTerminal node) of
        Some w \<Rightarrow> Some \<lparr>data = w, match = take depth word\<rparr>
      | None \<Rightarrow>
          if length word \<le> depth then
            (case passing req (exactTerminal node) of
               Some x \<Rightarrow> Some \<lparr>data = x, match = take depth word\<rparr>
             | None \<Rightarrow> None)
          else
            (case map_of (children node) (word ! depth) of
               Some child \<Rightarrow> parseWord req word child (depth + 1)
             | None \<Rightarrow> None))"
  by pat_completeness auto
termination
  by (relation "measure (\<lambda>(req, word, node, depth). length word - depth)") auto

declare parseWord.simps [simp del]

definition find_trie :: "trie \<Rightarrow> string \<Rightarrow> rom_request \<Rightarrow> find_result option" where
  "find_trie t p req = (if length p \<noteq> 0 then parseWord req p t 0 else None)"

text \<open>
  The words of the specification of \<open>find\<close>: the node reached along a path, the
  passing prefix terminal at a depth along the path, and the passing exact terminal
  at the end of the path.
\<close>

fun node_at :: "trie \<Rightarrow> string \<Rightarrow> trie option" where
  "node_at t [] = Some t"
| "node_at t (c # cs) =
     (case map_of (children t) c of Some child \<Rightarrow> node_at child cs | None \<Rightarrow> None)"

definition prefixHit :: "trie \<Rightarrow> string \<Rightarrow> rom_request \<Rightarrow> nat \<Rightarrow> route option" where
  "prefixHit t p req d =
     (case node_at t (take d p) of Some n \<Rightarrow> passing req (prefixTerminal n) | None \<Rightarrow> None)"

definition exactHit :: "trie \<Rightarrow> string \<Rightarrow> rom_request \<Rightarrow> route option" where
  "exactHit t p req =
     (case node_at t p of Some n \<Rightarrow> passing req (exactTerminal n) | None \<Rightarrow> None)"

section \<open>utils: hostnames, substitution, headers\<close>

fun is_string :: "jsval \<Rightarrow> bool" where
  "is_string (Str s) = True"
| "is_string v = False"

fun is_number :: "jsval \<Rightarrow> bool" where
  "is_number (Num n) = True"
| "is_number v = False"

text \<open>\<open>typeof v === 'object' && v !== null\<close>, and the own enumerable properties that
  \<open>for (h in v) if (v.hasOwnProperty(h))\<close> visits.\<close>

fun is_object :: "jsval \<Rightarrow> bool" where
  "is_object (Obj props) = True"
| "is_object v = False"

fun own_props :: "jsval \<Rightarrow> (string \<times> jsval) list" where
  "own_props (Obj props) = props"
| "own_props v = []"

text \<open>The character class \<open>[\w\-]\<close> and the pattern
  \<open>^[\w\-]+(\.[\w\-]+)*$\<close>: labels that are not empty, with single dots between.
  The flag says that the label being read already has a character.\<close>

definition isLabelChar :: "char \<Rightarrow> bool" where
  "isLabelChar c =
     (let n = (of_char c :: nat)
      in (48 \<le> n \<and> n \<le> 57) \<or> (65 \<le> n \<and> n \<le> 90) \<or> (97 \<le> n \<and> n \<le> 122) \<or>
         n = 95 \<or> n = 45)"

fun labels :: "string \<Rightarrow> bool \<Rightarrow> bool" where
  "labels [] started = started"
| "labels (c # cs) started =
     (if c = CHR ''.'' then started \<and> labels cs False
      else isLabelChar c \<and> labels cs True)"

definition isHostnameValid :: "string \<Rightarrow> bool" where
  "isHostnameValid host = (length host \<noteq> 0 \<and> labels host False)"

text \<open>\<open>s.indexOf(c, start)\<close> for a one-character needle (\<open>None\<close> is the -1), and
  \<open>s.slice(a, b)\<close> for indices that are not negative.\<close>

definition indexOf :: "string \<Rightarrow> char \<Rightarrow> nat \<Rightarrow> nat option" where
  "indexOf s c start =
     (if c \<in> set (drop start s)
      then Some (start + length (takeWhile (\<lambda>x. x \<noteq> c) (drop start s)))
      else None)"

definition slice :: "string \<Rightarrow> nat \<Rightarrow> nat \<Rightarrow> string" where
  "slice s a b = take (b - a) (drop a s)"

text \<open>\<open>typeof subs[sw] === 'string'\<close> with \<open>sw.length !== 0\<close>: the value to put in.
  No property of \<open>Object.prototype\<close> is a string, so the own properties decide.\<close>

definition substitution :: "(string \<times> jsval) list \<Rightarrow> string \<Rightarrow> string option" where
  "substitution subs sw =
     (if length sw \<noteq> 0
      then (case jsget subs sw of Str v \<Rightarrow> Some v | _ \<Rightarrow> None)
      else None)"

text \<open>
  The loop of \<open>substitute\<close>, entered with \<open>ss\<close> at a percent sign (\<open>ss !== -1\<close>).
  It stops when no second percent sign follows, and when a substitution reaches the
  end of the string; after a substitution it goes on from the first percent sign at
  or after \<open>ss + subs[sw].length\<close>, otherwise from the closing sign \<open>se\<close>.
\<close>

function substitute_loop :: "(string \<times> jsval) list \<Rightarrow> string \<Rightarrow> nat \<Rightarrow> string" where
  "substitute_loop subs ns ss =
     (case indexOf ns (CHR ''%'') (ss + 1) of
        None \<Rightarrow> ns
      | Some se \<Rightarrow>
          (case substitution subs (slice ns (ss + 1) se) of
             Some v \<Rightarrow>
               if length ns \<le> se + 1 then take ss ns @ v
               else
                 (case indexOf (take ss ns @ v @ drop (se + 1) ns) (CHR ''%'') (ss + length v) of
                    None \<Rightarrow> take ss ns @ v @ drop (se + 1) ns
                  | Some ss' \<Rightarrow> substitute_loop subs (take ss ns @ v @ drop (se + 1) ns) ss')
           | None \<Rightarrow> substitute_loop subs ns se))"
  by pat_completeness auto
termination
proof -
  have shorter: "c \<in> set xs \<Longrightarrow> length (takeWhile (\<lambda>x. x \<noteq> c) xs) < length xs"
    for c :: char and xs
    by (induction xs) auto
  have bounds: "indexOf s c start = Some i \<Longrightarrow> start \<le> i \<and> i < length s"
    for s c start i
    using shorter [of c "drop start s"] by (auto simp: indexOf_def split: if_splits)
  show ?thesis
  proof (relation "measure (\<lambda>(subs, ns, ss). length ns - ss)")
    show "wf (measure (\<lambda>(subs, ns, ss). length ns - ss))" by simp
  next
    fix subs :: "(string \<times> jsval) list" and ns :: string and ss se :: nat and v :: string
      and ss' :: nat
    assume se: "indexOf ns (CHR ''%'') (ss + 1) = Some se"
      and ss': "indexOf (take ss ns @ v @ drop (se + 1) ns) (CHR ''%'') (ss + length v) = Some ss'"
    from bounds [OF se] have b1: "ss + 1 \<le> se" "se < length ns" by auto
    from bounds [OF ss'] have b2: "ss + length v \<le> ss'"
      "ss' < length (take ss ns @ v @ drop (se + 1) ns)" by auto
    show "((subs, take ss ns @ v @ drop (se + 1) ns, ss'), (subs, ns, ss))
            \<in> measure (\<lambda>(subs, ns, ss). length ns - ss)"
      using b1 b2 by auto
  next
    fix subs :: "(string \<times> jsval) list" and ns :: string and ss se :: nat
    assume se: "indexOf ns (CHR ''%'') (ss + 1) = Some se"
    from bounds [OF se] have "ss + 1 \<le> se" "se < length ns" by auto
    then show "((subs, ns, se), (subs, ns, ss)) \<in> measure (\<lambda>(subs, ns, ss). length ns - ss)"
      by auto
  qed
qed

declare substitute_loop.simps [simp del]

definition substitute :: "jsval \<Rightarrow> jsval \<Rightarrow> jsval" where
  "substitute orig subs =
     (case orig of
        Str ns \<Rightarrow>
          if is_object subs then
            (case indexOf ns (CHR ''%'') 0 of
               None \<Rightarrow> Str ns
             | Some ss \<Rightarrow> Str (substitute_loop (own_props subs) ns ss))
          else orig
      | _ \<Rightarrow> orig)"

text \<open>
  What building a host table can throw: the errors that the code makes itself, and the
  TypeError of a call of something that is not a function (\<open>NotAFunction\<close>, with the
  name of the property called). \<open>OpaqueCall\<close> is no outcome of the code: it marks
  the inputs on which the outcome is decided by a function that the input itself
  carries, which the model does not follow.
\<close>

datatype build_error =
    InvalidHeader string
  | InvalidSource
  | InvalidEntry
  | InvalidRouteTable
  | InvalidHostname string
  | MultipleEntries string
  | NotAFunction string
  | OpaqueCall string
  | EntryError nat build_error

text \<open>
  \<open>obj.hasOwnProperty(h)\<close> for a name \<open>h\<close> that \<open>for (h in obj)\<close> visits. When
  \<open>obj\<close> has no own property \<open>hasOwnProperty\<close>, the call reaches the function of
  \<open>Object.prototype\<close>, and the answer is true: the names visited are own properties,
  because \<open>Object.prototype\<close> has no enumerable property. When \<open>obj\<close> has such
  a property, the call is a call of its value.
\<close>

definition hasOwnProperty_call :: "(string \<times> jsval) list \<Rightarrow> string \<Rightarrow> build_error + bool" where
  "hasOwnProperty_call props h =
     (case map_of props ''hasOwnProperty'' of
        None \<Rightarrow> Inr True
      | Some Fun \<Rightarrow> Inl (OpaqueCall ''hasOwnProperty'')
      | Some v \<Rightarrow> Inl (NotAFunction ''hasOwnProperty''))"

text \<open>
  \<open>mh[name] = v\<close> on the object \<open>mh\<close>, which starts as \<open>{}\<close>: the assignment
  replaces the value of a name that is there and adds a new name at the end. Under
  the name \<open>__proto__\<close> it runs the setter of \<open>Object.prototype\<close> instead, which
  does nothing when \<open>v\<close> is a string or a number, as it is here.
\<close>

definition assignHeader ::
  "string \<Rightarrow> jsval \<Rightarrow> (string \<times> jsval) list \<Rightarrow> (string \<times> jsval) list" where
  "assignHeader name v mh = (if name = ''__proto__'' then mh else AList.update name v mh)"

text \<open>
  One loop of \<open>mergeHeaders\<close> over the properties of \<open>obj\<close>, with the test of the
  value as \<open>valid\<close>. The result of \<open>mergeHeaders\<close> is given as the own properties
  of \<open>mh\<close>, in the order of their first assignment.
\<close>

fun copyHeaders ::
  "(jsval \<Rightarrow> bool) \<Rightarrow> (string \<times> jsval) list \<Rightarrow> (string \<times> jsval) list
     \<Rightarrow> (string \<times> jsval) list \<Rightarrow> build_error + (string \<times> jsval) list" where
  "copyHeaders valid obj [] mh = Inr mh"
| "copyHeaders valid obj ((h, v) # rest) mh =
     (case hasOwnProperty_call obj h of
        Inl e \<Rightarrow> Inl e
      | Inr own \<Rightarrow>
          if \<not> own then copyHeaders valid obj rest mh
          else if \<not> valid v then Inl (InvalidHeader h)
          else copyHeaders valid obj rest (assignHeader (toLowerCase h) v mh))"

definition mergeHeaders :: "jsval \<Rightarrow> jsval \<Rightarrow> build_error + (string \<times> jsval) list" where
  "mergeHeaders base extra =
     (case (if is_object base
            then copyHeaders is_string (own_props base) (own_props base) []
            else Inr []) of
        Inl e \<Rightarrow> Inl e
      | Inr mh \<Rightarrow>
          if is_object extra
          then copyHeaders (\<lambda>v. is_string v \<or> is_number v) (own_props extra) (own_props extra) mh
          else Inr mh)"

text \<open>The words of the specification: the copy of a header object with its names in
  small letters, as a map; where two names fall together the later property wins.\<close>

definition lowerCased :: "(string \<times> jsval) list \<Rightarrow> (string \<rightharpoonup> jsval)" where
  "lowerCased props = map_of (rev (map (\<lambda>(h, v). (toLowerCase h, v)) props))"

text \<open>A header object whose names keep clear of \<open>Object.prototype\<close>: it has no own
  property \<open>hasOwnProperty\<close>, and none of its names is \<open>__proto__\<close> in small
  letters.\<close>

definition plainNames :: "(string \<times> jsval) list \<Rightarrow> bool" where
  "plainNames props =
     (map_of props ''hasOwnProperty'' = None \<and>
      list_all (\<lambda>(h, v). toLowerCase h \<noteq> ''__proto__'') props)"

section \<open>HttpError\<close>

definition errorCodes :: "(nat \<times> string) list" where
  "errorCodes =
     [(100, ''Continue''), (101, ''Switching Protocols''), (102, ''Processing''),
      (200, ''OK''), (201, ''Created''), (202, ''Accepted''),
      (203, ''Non-Authoritative Information''), (204, ''No Content''),
      (205, ''Reset Content''), (206, ''Partial Content''), (207, ''Multi-Status''),
      (208, ''Already Reported''), (226, ''IM Used''),
      (300, ''Multiple Choices''), (301, ''Moved Permanently''), (302, ''Moved Temporarily''),
      (303, ''See Other''), (304, ''Not Modified''), (305, ''Use Proxy''),
      (306, ''Switch Proxy''), (307, ''Temporary Redirect''), (308, ''Permanent Redirect''),
      (400, ''Bad Request''), (401, ''Unauthorized''), (402, ''Payment Required''),
      (403, ''Forbidden''), (404, ''Not Found''), (405, ''Method Not Allowed''),
      (406, ''Not Acceptable''), (407, ''Proxy Authentication Required''),
      (408, ''Request Timeout''), (409, ''Conflict''), (410, ''Gone''),
      (411, ''Length Required''), (412, ''Precondition Failed''),
      (413, ''Payload Too Large''), (414, ''URI Too Long''),
      (415, ''Unsupported Media Type''), (416, ''Range Not Satisfiable''),
      (417, ''Expectation Failed''), (418, [CHR ''I'', CHR 0x27] @ ''m a teapot''),
      (421, ''Misdirected Request''), (422, ''Unprocessable Entity''), (423, ''Locked''),
      (424, ''Failed Dependency''), (426, ''Upgrade Required''),
      (428, ''Precondition Required''), (429, ''Too Many Requests''),
      (431, ''Request Header Fields Too Large''), (451, ''Unavailable For Legal Reasons''),
      (500, ''Internal Server Error''), (501, ''Not Implemented''), (502, ''Bad Gateway''),
      (503, ''Service Unavailable''), (504, ''Gateway Timeout''),
      (505, ''HTTP Version Not Supported''), (506, ''Variant Also Negotiates''),
      (507, ''Insufficient Storage''), (508, ''Loop Detected''), (510, ''Not Extended''),
      (511, ''Network Authentication Required'')]"

text \<open>\<open>errorCodes[code]\<close>: a number is a key of the table when it is one of the
  natural numbers listed.\<close>

definition getErrorMessage :: "jsval \<Rightarrow> string" where
  "getErrorMessage code =
     (case code of
        Num (Fin x) \<Rightarrow>
          if 0 \<le> x \<and> real (nat \<lfloor>x\<rfloor>) = x
          then (case map_of errorCodes (nat \<lfloor>x\<rfloor>) of Some m \<Rightarrow> m | None \<Rightarrow> ''Unknown'')
          else ''Unknown''
      | _ \<Rightarrow> ''Unknown'')"

text \<open>
  The comparisons \<open>n > c\<close> and \<open>n < c\<close> of a number with a literal.
  The conversions of the language that the constructor calls on values that are not
  numbers, \<open>Number(v)\<close> and \<open>parseInt(s, 10)\<close>, are parameters: what is proved
  holds whatever they return.
\<close>

fun num_gt :: "jsnum \<Rightarrow> real \<Rightarrow> bool" where
  "num_gt (Fin x) c = (c < x)"
| "num_gt PosInf c = True"
| "num_gt n c = False"

fun num_lt :: "jsnum \<Rightarrow> real \<Rightarrow> bool" where
  "num_lt (Fin x) c = (x < c)"
| "num_lt NegInf c = True"
| "num_lt n c = False"

record coercions =
  js_Number :: "jsval \<Rightarrow> jsnum"
  js_parseInt :: "string \<Rightarrow> jsnum"

definition toNumber :: "coercions \<Rightarrow> jsval \<Rightarrow> jsnum" where
  "toNumber cv v = (case v of Num n \<Rightarrow> n | _ \<Rightarrow> js_Number cv v)"

record http_error =
  statusCode :: jsval
  message :: string

text \<open>The three branches leave the pair (message, status); then the status code and
  the message are set.\<close>

definition HttpError_args :: "coercions \<Rightarrow> jsval \<Rightarrow> jsval \<Rightarrow> jsval \<times> jsval" where
  "HttpError_args cv msg status =
     (if is_number msg then (Undefined, msg)
      else if is_number status \<or> num_gt (toNumber cv status) 0
      then (msg, Num (toNumber cv status))
      else (case msg of
              Str s \<Rightarrow>
                if num_gt (js_parseInt cv s) 0
                then (if 3 < length s then msg else Undefined, Num (js_parseInt cv s))
                else (msg, Num (js_parseInt cv s))
            | _ \<Rightarrow> (msg, status)))"

definition HttpError :: "coercions \<Rightarrow> jsval \<Rightarrow> jsval \<Rightarrow> http_error" where
  "HttpError cv msg status =
     (let (msg1, status1) = HttpError_args cv msg status;
          code = (if num_gt (toNumber cv status1) 0 \<and> num_lt (toNumber cv status1) 600
                  then status1 else Num (Fin 500))
      in \<lparr>statusCode = code,
          message = (case msg1 of Str s \<Rightarrow> s | _ \<Rightarrow> getErrorMessage code)\<rparr>)"

text \<open>The words of the specification: a status code that is a number between two
  bounds.\<close>

definition statusWithin :: "real \<Rightarrow> real \<Rightarrow> jsval \<Rightarrow> bool" where
  "statusWithin lo hi v = (case v of Num (Fin x) \<Rightarrow> lo \<le> x \<and> x \<le> hi | _ \<Rightarrow> False)"

text \<open>\<open>status > 0 && status < 600\<close>.\<close>

definition validStatus :: "coercions \<Rightarrow> jsval \<Rightarrow> bool" where
  "validStatus cv v = (num_gt (toNumber cv v) 0 \<and> num_lt (toNumber cv v) 600)"

text \<open>
  The words of the specification: the status that the arguments supply, and the
  message string that they give. The status is the message argument when that is a
  number; else the status argument as a number, when it is a number or converts to a
  number above 0; else the number that the message string starts with; else there is
  none. A message string is given when the message argument is a string, unless the
  status was read from it and it has no more than three characters.
\<close>

definition statusFromArgument :: "coercions \<Rightarrow> jsval \<Rightarrow> bool" where
  "statusFromArgument cv status = (is_number status \<or> num_gt (toNumber cv status) 0)"

definition suppliedStatus :: "coercions \<Rightarrow> jsval \<Rightarrow> jsval \<Rightarrow> jsnum option" where
  "suppliedStatus cv msg status =
     (case msg of
        Num n \<Rightarrow> Some n
      | Str s \<Rightarrow>
          if statusFromArgument cv status then Some (toNumber cv status)
          else Some (js_parseInt cv s)
      | _ \<Rightarrow> if statusFromArgument cv status then Some (toNumber cv status) else None)"

definition givenMessage :: "coercions \<Rightarrow> jsval \<Rightarrow> jsval \<Rightarrow> string option" where
  "givenMessage cv msg status =
     (case msg of
        Str s \<Rightarrow>
          if \<not> statusFromArgument cv status \<and> num_gt (js_parseInt cv s) 0 \<and> length s \<le> 3
          then None else Some s
      | _ \<Rightarrow> None)"

text \<open>A number above 0 and below 600.\<close>

definition inRange :: "jsnum \<Rightarrow> bool" where
  "inRange n = (case n of Fin x \<Rightarrow> 0 < x \<and> x < 600 | _ \<Rightarrow> False)"

section \<open>RouteTable: the trie resolver\<close>

record route_table =
  table_id :: string
  isCaseSpecific :: bool
  matchUsingQueryParams :: bool
  trie :: trie

text \<open>\<open>'?' + req.query\<close>: string concatenation turns \<open>null\<close> into its name.\<close>

definition checkBasicsAndNormalizePath :: "route_table \<Rightarrow> rom_request \<Rightarrow> string" where
  "checkBasicsAndNormalizePath tbl req =
     (if isCaseSpecific tbl then path req else normalizedPath req) @
     (if matchUsingQueryParams tbl
      then ''?'' @ (case query req of Some q \<Rightarrow> q | None \<Rightarrow> ''null'')
      else [])"

text \<open>
  The objects the resolver reads properties from: a compiled route, and the object
  literal \<open>{data: ..., match: ...}\<close> that \<open>find\<close> returns.
\<close>

definition route_props :: "route \<Rightarrow> (string \<times> jsval) list" where
  "route_props r =
     [(''on'', Str (on r)), (''methodMatch'', Str (methodMatch r)),
      (''hostMatch'', Str (hostMatch r)), (''protoMatch'', Str (protoMatch r)),
      (''portMatch'', Num (portMatch r)), (''allowWrite'', allowWrite r),
      (''forceProto'', Str (forceProto r)), (''forcePort'', forcePort r),
      (''postMatchRE'', (case postMatchRE r of Some re \<Rightarrow> Obj [] | None \<Rightarrow> Undefined)),
      (''action'', Fun)]"

definition find_result_props :: "find_result \<Rightarrow> (string \<times> jsval) list" where
  "find_result_props result =
     [(''data'', Obj (route_props (data result))), (''match'', Str (match result))]"

text \<open>What a resolver does to the response: a redirect (the code and the object handed
  to \<open>url.format\<close>), a call of the route's action, an error passed on.\<close>

datatype event =
    Redirect nat "(string \<times> jsval) list"
  | ActionCalled args action_result
  | ErrorSent nat

text \<open>\<open>v.toUpperCase()\<close> in the log line: a TypeError unless \<open>v\<close> is a string.\<close>

fun js_toUpperCase_call :: "jsval \<Rightarrow> exn + unit" where
  "js_toUpperCase_call (Str s) = Inr ()"
| "js_toUpperCase_call v = Inl TypeError"

definition handleProtocolRedirect ::
  "rom_request \<Rightarrow> (string \<times> jsval) list \<Rightarrow> args \<Rightarrow> exn + event list" where
  "handleProtocolRedirect req routeObj a =
     (let urlObj =
        [(''auth'', nullable (auth req)), (''hash'', nullable (hash req)),
         (''hostname'', Str (hostname req)), (''pathname'', Str (path req)),
         (''port'', jsget routeObj ''forcePort''),
         (''protocol'', jsget routeObj ''forceProto''),
         (''search'', jsget routeObj ''query'')]
      in case js_toUpperCase_call (jsget routeObj ''forceProto'') of
           Inl e \<Rightarrow> Inl e
         | Inr u \<Rightarrow> Inr [Redirect 301 urlObj])"

text \<open>The body of the \<open>try\<close> of \<open>checkTrieRoutes\<close>: what it did, and the exception
  that ended it, if one did. The \<open>catch\<close> answers an exception with a 500.\<close>

definition dispatchTrieMatch ::
  "rom_request \<Rightarrow> find_result \<Rightarrow> args \<Rightarrow> event list \<times> exn option" where
  "dispatchTrieMatch req result a =
     (case js_length (jsget (find_result_props result) ''forceProto'') of
        Inl e \<Rightarrow> ([], Some e)
      | Inr len \<Rightarrow>
          if len \<noteq> Num (Fin 0) \<and>
             \<not> str_eq (proto req) (jsget (find_result_props result) ''forceProto'')
          then (case handleProtocolRedirect req (find_result_props result) a of
                  Inl e \<Rightarrow> ([], Some e)
                | Inr events \<Rightarrow> (events, None))
          else (case action (data result) req a of
                  Threw m \<Rightarrow> ([ActionCalled a (Threw m)], Some (Error m))
                | Returned v \<Rightarrow> ([ActionCalled a (Returned v)], None)))"

definition checkTrieRoutes :: "route_table \<Rightarrow> rom_request \<Rightarrow> bool \<times> event list" where
  "checkTrieRoutes tbl req =
     (let key = checkBasicsAndNormalizePath tbl req
      in if length key = 0 then (False, [])
         else
           (case find_trie (trie tbl) key req of
              None \<Rightarrow> (False, [])
            | Some result \<Rightarrow>
                (let a = \<lparr>arg0 = match result,
                          arg1 = drop (length (match result)) key,
                          key = key\<rparr>
                 in if (case postMatchRE (data result) of
                          Some re \<Rightarrow> \<not> re (arg1 a)
                        | None \<Rightarrow> False)
                    then (False, [])
                    else
                      (case dispatchTrieMatch req result a of
                         (events, Some e) \<Rightarrow> (True, events @ [ErrorSent 500])
                       | (events, None) \<Rightarrow> (True, events)))))"

section \<open>HostTable\<close>

text \<open>
  What a route resolver did with a request: returned false, answered it (returned
  true), rewrote it (the action called \<open>req.rewrite\<close>, which stores the new path,
  url and href and calls \<open>doRoute\<close> again before the resolver returns true), or
  threw.
\<close>

datatype resolution = Unmatched | Responded | Rewritten string string string | Raised

type_synonym resolver = "rom_request \<Rightarrow> resolution"

text \<open>The settings that a host entry may override and \<open>config.defaults\<close> may give;
  the same four fields make the \<open>hc\<close> object of a host.\<close>

record header_settings =
  timeout :: jsval
  headers :: jsval
  proxyHeaders :: jsval
  redirectHeaders :: jsval

record host_src = header_settings +
  hostnames :: "string list"
  routeTables :: "string list"

record table_config =
  routeTableObjects :: "string \<rightharpoonup> resolver"
  subs :: jsval
  defaults :: header_settings

record host_entry =
  config :: header_settings
  routeResolvers :: "resolver list"

text \<open>
  \<open>this.hosts\<close> starts as \<open>{}\<close>: \<open>hosts\<close> are its own properties, and
  \<open>hostsPrototype\<close> is the host object that an assignment under the name
  \<open>__proto__\<close> has made its prototype (\<open>None\<close> while the prototype is still
  \<open>Object.prototype\<close>).
\<close>

record host_table =
  count :: nat
  hasDefaultHost :: bool
  hosts :: "string \<rightharpoonup> host_entry"
  hostsPrototype :: "host_entry option"

definition mergedOrNull :: "jsval \<Rightarrow> jsval \<Rightarrow> build_error + jsval" where
  "mergedOrNull dflt own =
     (if is_object dflt \<or> is_object own
      then (case mergeHeaders dflt own of Inl e \<Rightarrow> Inl e | Inr mh \<Rightarrow> Inr (Obj mh))
      else Inr Null)"

definition hostConfig :: "header_settings \<Rightarrow> host_src \<Rightarrow> build_error + header_settings" where
  "hostConfig dflt h =
     (case mergedOrNull (headers dflt) (headers h) of
        Inl e \<Rightarrow> Inl e
      | Inr hs \<Rightarrow>
     (case mergedOrNull (proxyHeaders dflt) (proxyHeaders h) of
        Inl e \<Rightarrow> Inl e
      | Inr ps \<Rightarrow>
     (case mergedOrNull (redirectHeaders dflt) (redirectHeaders h) of
        Inl e \<Rightarrow> Inl e
      | Inr rs \<Rightarrow>
          Inr \<lparr>timeout = (if is_number (timeout h) then timeout h
                          else if is_number (timeout dflt) then timeout dflt
                          else Num (Fin 0)),
               headers = hs, proxyHeaders = ps, redirectHeaders = rs\<rparr>)))"

text \<open>
  \<open>routeTables\<close> holds the route tables under their ids, here each as the resolver
  that its \<open>getResolver()\<close> returns. Under a name that is not an id,
  \<open>routeTables[r]\<close> is undefined or a function of \<open>Object.prototype\<close>, which the
  test on \<open>typeof\<close> turns down, or, for \<open>__proto__\<close>, it is \<open>Object.prototype\<close>,
  which passes the test and has no \<open>getResolver\<close>.
\<close>

fun collectResolvers :: "(string \<rightharpoonup> resolver) \<Rightarrow> string list \<Rightarrow> build_error + resolver list" where
  "collectResolvers tables [] = Inr []"
| "collectResolvers tables (r # rest) =
     (if length r = 0 then Inl InvalidRouteTable
      else (case tables r of
              None \<Rightarrow>
                if r = ''__proto__'' then Inl (NotAFunction ''getResolver'')
                else Inl InvalidRouteTable
            | Some resolve \<Rightarrow>
                (case collectResolvers tables rest of
                   Inl e \<Rightarrow> Inl e
                 | Inr rr \<Rightarrow> Inr (resolve # rr))))"

text \<open>\<open>utils.substitute(n, subs)\<close> on a hostname, which is a string and stays one.\<close>

definition substituteName :: "string \<Rightarrow> jsval \<Rightarrow> string" where
  "substituteName n sb = (case substitute (Str n) sb of Str s \<Rightarrow> s | _ \<Rightarrow> n)"

text \<open>
  What \<open>this.hosts[n]\<close> reads: a host object (an own property, or the prototype
  itself under the name \<open>__proto__\<close>), a property of the host object that is the
  prototype (its \<open>config\<close>, its array \<open>routeResolvers\<close>), \<open>Object.prototype\<close> or
  one of its functions, or \<open>undefined\<close>.
\<close>

datatype slot =
    Entry host_entry
  | ConfigObject header_settings
  | ResolverArray "resolver list"
  | ObjectPrototype
  | Method string
  | Empty

definition inherited :: "string \<Rightarrow> slot" where
  "inherited n = (if n \<in> set objectPrototypeMethods then Method n else Empty)"

definition readHosts :: "host_table \<Rightarrow> string \<Rightarrow> slot" where
  "readHosts ht n =
     (case hosts ht n of
        Some entry \<Rightarrow> Entry entry
      | None \<Rightarrow>
          (case hostsPrototype ht of
             Some entry \<Rightarrow>
               if n = ''__proto__'' then Entry entry
               else if n = ''config'' then ConfigObject (config entry)
               else if n = ''routeResolvers'' then ResolverArray (routeResolvers entry)
               else inherited n
           | None \<Rightarrow> if n = ''__proto__'' then ObjectPrototype else inherited n))"

text \<open>\<open>this.hosts[n] = entry\<close>: an own property, or the new prototype.\<close>

definition writeHosts :: "host_table \<Rightarrow> string \<Rightarrow> host_entry \<Rightarrow> host_table" where
  "writeHosts ht n entry =
     (if n = ''__proto__'' then ht\<lparr>hostsPrototype := Some entry\<rparr>
      else ht\<lparr>hosts := (hosts ht)(n \<mapsto> entry)\<rparr>)"

text \<open>\<open>typeof v === 'object' && v !== null\<close> on what was read, and the test
  \<open>Array.isArray(v) && v.length !== 0\<close>, which reads the length of an array only.\<close>

fun isObjectSlot :: "slot \<Rightarrow> bool" where
  "isObjectSlot (Method m) = False"
| "isObjectSlot Empty = False"
| "isObjectSlot v = True"

fun Array_isArray :: "slot \<Rightarrow> bool" where
  "Array_isArray (ResolverArray rr) = True"
| "Array_isArray v = False"

fun isNonEmptyArray :: "slot \<Rightarrow> bool" where
  "isNonEmptyArray (ResolverArray rr) = (Array_isArray (ResolverArray rr) \<and> length rr \<noteq> 0)"
| "isNonEmptyArray v = False"

fun bindHostnames ::
  "jsval \<Rightarrow> host_entry \<Rightarrow> string list \<Rightarrow> host_table \<Rightarrow> build_error + host_table" where
  "bindHostnames sb entry [] ht = Inr ht"
| "bindHostnames sb entry (n0 # rest) ht =
     (let n1 = (if sb \<noteq> Null then substituteName n0 sb else n0)
      in if sb \<noteq> Null \<and> n1 = [] then bindHostnames sb entry rest ht
         else if \<not> isHostnameValid n1 \<and> n1 \<noteq> ''*'' then Inl (InvalidHostname n1)
         else
           (let n = toLowerCase n1
            in if isNonEmptyArray (readHosts ht n)
               then Inl (MultipleEntries n)
               else bindHostnames sb entry rest
                      ((writeHosts ht n entry)
                         \<lparr>hasDefaultHost := (if n = ''*'' then True else hasDefaultHost ht),
                          count := count ht + 1\<rparr>)))"

definition hostEntry :: "table_config \<Rightarrow> host_src \<Rightarrow> host_table \<Rightarrow> build_error + host_table" where
  "hostEntry cfg h ht =
     (if length (hostnames h) = 0 \<or> length (routeTables h) = 0 then Inl InvalidEntry
      else (case hostConfig (defaults cfg) h of
              Inl e \<Rightarrow> Inl e
            | Inr hc \<Rightarrow>
                (case collectResolvers (routeTableObjects cfg) (routeTables h) of
                   Inl e \<Rightarrow> Inl e
                 | Inr rr \<Rightarrow>
                     bindHostnames (subs cfg) \<lparr>config = hc, routeResolvers = rr\<rparr>
                       (hostnames h) ht)))"

fun hostEntries ::
  "table_config \<Rightarrow> nat \<Rightarrow> host_src list \<Rightarrow> host_table \<Rightarrow> build_error + host_table" where
  "hostEntries cfg i [] ht = Inr ht"
| "hostEntries cfg i (h # rest) ht =
     (case hostEntry cfg h ht of
        Inl e \<Rightarrow> Inl (EntryError i e)
      | Inr ht' \<Rightarrow> hostEntries cfg (i + 1) rest ht')"

definition HostTable :: "host_src list \<Rightarrow> table_config \<Rightarrow> build_error + host_table" where
  "HostTable src cfg =
     (if length src = 0 then Inl InvalidSource
      else hostEntries cfg 0 src
             \<lparr>count = 0, hasDefaultHost = False, hosts = Map.empty, hostsPrototype = None\<rparr>)"

text \<open>\<open>getHost\<close> returns what it read from \<open>this.hosts\<close>, or \<open>null\<close>.\<close>

datatype host_lookup = Found slot | NullHost

definition getHost :: "host_table \<Rightarrow> string \<Rightarrow> host_lookup" where
  "getHost ht host =
     (let hn = (if length host \<noteq> 0 then toLowerCase host else ''*'')
      in if isObjectSlot (readHosts ht hn) then Found (readHosts ht hn)
         else if hasDefaultHost ht then Found (readHosts ht ''*'')
         else NullHost)"

text \<open>What the constructor keeps true of the table it fills: the flag is set exactly
  when the name \<open>*\<close> is bound, and neither the empty name nor \<open>__proto__\<close> is an
  own property.\<close>

definition consistent :: "host_table \<Rightarrow> bool" where
  "consistent ht =
     ((hasDefaultHost ht \<longleftrightarrow> hosts ht ''*'' \<noteq> None) \<and> hosts ht [] = None \<and>
      hosts ht ''__proto__'' = None)"

section \<open>RomRequest: URL normalization\<close>

text \<open>The pattern \<open>%[\dA-Fa-f]{2}\<close>, \<open>parseInt(h, 16)\<close> on its two digits, and
  \<open>toUpperCase\<close> on a match, which changes the letters a to f only.\<close>

definition isHexDigit :: "char \<Rightarrow> bool" where
  "isHexDigit c =
     (let n = (of_char c :: nat)
      in (48 \<le> n \<and> n \<le> 57) \<or> (65 \<le> n \<and> n \<le> 70) \<or> (97 \<le> n \<and> n \<le> 102))"













section \<open>RomRequest: routing\<close>

record settings =
  retryLimit :: int

text \<open>The constructor sets \<open>routePass\<close> to 0; \<open>process\<close> then fills in the
  request's fields and does not touch it.\<close>

definition RomRequest :: "rom_request \<Rightarrow> rom_request" where
  "RomRequest req = req\<lparr>routePass := 0\<rparr>"

text \<open>The loop over the host's resolvers stops at the first that does not return
  false.\<close>

fun runResolvers :: "resolver list \<Rightarrow> rom_request \<Rightarrow> resolution" where
  "runResolvers [] req = Unmatched"
| "runResolvers (resolve # rest) req =
     (case resolve req of Unmatched \<Rightarrow> runResolvers rest req | result \<Rightarrow> result)"

text \<open>
  How one entry to \<open>doRoute\<close> ended, and the status of the error it passed on, if
  any. An exception inside the \<open>try\<close> is answered with a 500: one that a resolver
  throws, and the TypeError of \<open>host.config.timeout\<close> when what \<open>getHost\<close> returned
  is not a host object and so has no \<open>config\<close>.
\<close>

datatype pass_result =
  RetryExceeded | InvalidHost | NotFound | Handled | Crashed | Rerouted

fun errorStatus :: "pass_result \<Rightarrow> nat option" where
  "errorStatus RetryExceeded = Some 500"
| "errorStatus InvalidHost = Some 503"
| "errorStatus NotFound = Some 404"
| "errorStatus Crashed = Some 500"
| "errorStatus Handled = None"
| "errorStatus Rerouted = None"

text \<open>
  \<open>doRoute\<close> returns the request as it leaves it and, for every entry made on the way
  (its own and those of the rewrites inside it), the value of \<open>routePass\<close> that the
  entry read and how the entry ended.
\<close>

function doRoute ::
  "settings \<Rightarrow> host_table \<Rightarrow> rom_request \<Rightarrow> rom_request \<times> (nat \<times> pass_result) list" where
  "doRoute st ht req =
     (let pass = routePass req; req1 = req\<lparr>routePass := pass + 1\<rparr>
      in if retryLimit st < int pass then (req1, [(pass, RetryExceeded)])
         else
           (case getHost ht (hostname req1) of
              NullHost \<Rightarrow> (req1, [(pass, InvalidHost)])
            | Found (Entry host) \<Rightarrow>
                (case runResolvers (routeResolvers host) req1 of
                   Unmatched \<Rightarrow> (req1, [(pass, NotFound)])
                 | Responded \<Rightarrow> (req1, [(pass, Handled)])
                 | Raised \<Rightarrow> (req1, [(pass, Crashed)])
                 | Rewritten p u h \<Rightarrow>
                     (let (req2, entries) =
                        doRoute st ht
                          (req1\<lparr>path := p, normalizedPath := toLowerCase p, url := u, href := h\<rparr>)
                      in (req2, (pass, Rerouted) # entries)))
            | Found other \<Rightarrow> (req1, [(pass, Crashed)])))"
  by pat_completeness auto
termination
  by (relation "measure (\<lambda>(st, ht, req). nat (retryLimit st + 1 - int (routePass req)))") auto

declare doRoute.simps [simp del]

section \<open>Sample requests, routes and tries\<close>

definition get_request :: rom_request where
  "get_request = \<lparr>auth = None, hash = None, hostname = ''example.com'',
     href = ''https://example.com/abc'', method = ''GET'', normalizedPath = ''abc'',
     path = ''abc'', port = Num (Fin 80), proto = ''https'', query = None,
     routePass = 0, url = ''abc''\<rparr>"

definition post_request :: rom_request where
  "post_request = get_request\<lparr>method := ''POST''\<rparr>"

definition plain_route :: route where
  "plain_route = \<lparr>on = ''ab'', methodMatch = [], hostMatch = [], protoMatch = [],
     portMatch = Fin 0, allowWrite = Undefined, forceProto = [], forcePort = Undefined,
     postMatchRE = None, action = (\<lambda>req a. Returned (Bool True))\<rparr>"

definition write_route :: route where
  "write_route = plain_route\<lparr>on := ''abc#'', allowWrite := Bool True\<rparr>"

definition https_only_route :: route where
  "https_only_route = plain_route\<lparr>protoMatch := ''https''\<rparr>"

text \<open>The trie after \<open>add('ab', plain_route)\<close> and \<open>add('abc#', write_route)\<close>.\<close>

definition sample_trie :: trie where
  "sample_trie =
     Node None None [(CHR ''a'',
       Node None None [(CHR ''b'',
         Node (Some plain_route) None [(CHR ''c'',
           Node None (Some write_route) [])])])]"

definition sample_table :: route_table where
  "sample_table = \<lparr>table_id = ''main'', isCaseSpecific = True,
     matchUsingQueryParams = False, trie = sample_trie\<rparr>"

text \<open>Two route tables, as their resolvers, and a host configuration that names the host
  \<open>a.com\<close> twice, the second time in capitals.\<close>

definition answering :: resolver where
  "answering = (\<lambda>req. Responded)"

definition declining :: resolver where
  "declining = (\<lambda>req. Unmatched)"

definition no_overrides :: header_settings where
  "no_overrides = \<lparr>timeout = Undefined, headers = Undefined, proxyHeaders = Undefined,
     redirectHeaders = Undefined\<rparr>"

definition sample_config :: table_config where
  "sample_config = \<lparr>routeTableObjects = [''main'' \<mapsto> answering, ''other'' \<mapsto> declining],
     subs = Null, defaults = no_overrides\<rparr>"

definition first_binding :: host_src where
  "first_binding = \<lparr>timeout = Undefined, headers = Undefined, proxyHeaders = Undefined,
     redirectHeaders = Undefined, hostnames = [''a.com''], routeTables = [''main'']\<rparr>"

definition second_binding :: host_src where
  "second_binding = \<lparr>timeout = Undefined, headers = Undefined, proxyHeaders = Undefined,
     redirectHeaders = Undefined, hostnames = [''A.com''], routeTables = [''other'']\<rparr>"

definition plain_host :: header_settings where
  "plain_host = \<lparr>timeout = Num (Fin 0), headers = Null, proxyHeaders = Null,
     redirectHeaders = Null\<rparr>"

text \<open>A host entry that binds the default host \<open>*\<close>, and a request for the host
  \<open>__proto__\<close>, a name that \<open>isHostnameValid\<close> accepts.\<close>

definition default_binding :: host_src where
  "default_binding = \<lparr>timeout = Undefined, headers = Undefined, proxyHeaders = Undefined,
     redirectHeaders = Undefined, hostnames = [''*''], routeTables = [''main'']\<rparr>"

text \<open>The tables that the constructor builds from \<open>first_binding\<close> alone and from
  \<open>default_binding\<close> alone.\<close>

definition single_table :: host_table where
  "single_table = \<lparr>count = 1, hasDefaultHost = False,
     hosts = [''a.com'' \<mapsto> \<lparr>config = plain_host, routeResolvers = [answering]\<rparr>],
     hostsPrototype = None\<rparr>"

definition default_table :: host_table where
  "default_table = \<lparr>count = 1, hasDefaultHost = True,
     hosts = [''*'' \<mapsto> \<lparr>config = plain_host, routeResolvers = [answering]\<rparr>],
     hostsPrototype = None\<rparr>"

definition proto_request :: rom_request where
  "proto_request = get_request\<lparr>hostname := ''__proto__''\<rparr>"

text \<open>A resolver that rewrites every request to its own path with one character
  more, and a table whose only host is the default.\<close>

definition appending :: resolver where
  "appending = (\<lambda>req. Rewritten (path req @ ''x'') (url req @ ''x'') (href req @ ''x''))"

definition looping_table :: host_table where
  "looping_table = \<lparr>count = 1, hasDefaultHost = True,
     hosts = [''*'' \<mapsto> \<lparr>config = plain_host, routeResolvers = [appending]\<rparr>],
     hostsPrototype = None\<rparr>"

text \<open>Conversions that know no number in any value: enough for calls whose status is a
  number already.\<close>

definition no_conversions :: coercions where
  "no_conversions = \<lparr>js_Number = (\<lambda>v. NaN), js_parseInt = (\<lambda>s. NaN)\<rparr>"

text \<open>
  A sample of the two conversions. \<open>Number(v)\<close> as the language gives it for
  \<open>undefined\<close>, \<open>null\<close>, a truth value, the empty string and a string of decimal
  digits; \<open>parseInt(s, 10)\<close> as the language gives it for a string that starts with
  a decimal digit, or with a character that is neither a blank nor a sign. On other
  strings the sample knows no number.
\<close>

definition isDigit :: "char \<Rightarrow> bool" where
  "isDigit c = (48 \<le> (of_char c :: nat) \<and> (of_char c :: nat) \<le> 57)"

definition digitsValue :: "string \<Rightarrow> nat" where
  "digitsValue s = foldl (\<lambda>n c. 10 * n + ((of_char c :: nat) - 48)) 0 s"

definition decimal_conversions :: coercions where
  "decimal_conversions =
     \<lparr>js_Number =
        (\<lambda>v. case v of
               Null \<Rightarrow> Fin 0
             | Bool b \<Rightarrow> Fin (if b then 1 else 0)
             | Num n \<Rightarrow> n
             | Str s \<Rightarrow> if list_all isDigit s then Fin (real (digitsValue s)) else NaN
             | _ \<Rightarrow> NaN),
      js_parseInt =
        (\<lambda>s. if takeWhile isDigit s = [] then NaN
             else Fin (real (digitsValue (takeWhile isDigit s))))\<rparr>"

section \<open>The runtime checks on a RomRequest\<close>

lemma isWriteMethodValue_Str: "isWriteMethodValue (Str m) = (m \<in> set writeMethods)"
  by (auto simp: isWriteMethodValue_def)

lemma num_eq_zero: "num_eq n (Num (Fin 0)) = (n = Fin 0)"
  by (cases n) auto

text \<open>What the checks amount to on a \<open>RomRequest\<close>, which has no property
  \<open>protocol\<close>.\<close>

lemma doRuntimeChecks_RomRequest:
  "doRuntimeChecks req r =
     ((if methodMatch r \<noteq> [] then methodMatch r = method req
       else (allowWrite r \<noteq> Bool True \<longrightarrow> method req \<notin> set writeMethods)) \<and>
      (portMatch r \<noteq> Fin 0 \<longrightarrow> num_eq (portMatch r) (port req)) \<and>
      (hostMatch r \<noteq> [] \<longrightarrow> hostMatch r = hostname req) \<and>
      protoMatch r = [])"
  by (auto simp: doRuntimeChecks_def req_get_def RomRequest_props_def jsget_def
      isWriteMethodValue_Str num_eq_zero)

lemma get_passes_plain: "doRuntimeChecks get_request plain_route"
  by (simp add: doRuntimeChecks_RomRequest get_request_def plain_route_def writeMethods_def)

lemma post_fails_plain: "\<not> doRuntimeChecks post_request plain_route"
  by (simp add: doRuntimeChecks_RomRequest post_request_def get_request_def plain_route_def
      writeMethods_def)

lemma post_passes_write: "doRuntimeChecks post_request write_route"
  by (simp add: doRuntimeChecks_RomRequest post_request_def get_request_def plain_route_def
      write_route_def writeMethods_def)

section \<open>The trie resolver and the forced protocol\<close>

lemma find_sample_get:
  "find_trie sample_trie ''abc'' get_request = Some \<lparr>data = plain_route, match = ''ab''\<rparr>"
  by (simp add: find_trie_def parseWord.simps sample_trie_def passing_def get_passes_plain)

text \<open>The object that \<open>find\<close> returns has the properties \<open>data\<close> and \<open>match\<close>, so
  \<open>result.forceProto\<close> is undefined and reading its length throws.\<close>

lemma result_has_no_forceProto:
  "js_length (jsget (find_result_props result) ''forceProto'') = Inl TypeError"
  by (simp add: find_result_props_def jsget_def)

lemma dispatchTrieMatch_throws: "dispatchTrieMatch req result a = ([], Some TypeError)"
  by (simp add: dispatchTrieMatch_def result_has_no_forceProto)

lemma checkTrieRoutes_matched:
  assumes "find_trie (trie tbl) (checkBasicsAndNormalizePath tbl req) req = Some result"
    and "case postMatchRE (data result) of
           Some re \<Rightarrow> re (drop (length (match result)) (checkBasicsAndNormalizePath tbl req))
         | None \<Rightarrow> True"
  shows "checkTrieRoutes tbl req = (True, [ErrorSent 500])"
proof -
  have "checkBasicsAndNormalizePath tbl req \<noteq> []"
    using assms(1) by (auto simp: find_trie_def)
  then show ?thesis
    using assms
    by (auto simp: checkTrieRoutes_def Let_def dispatchTrieMatch_throws split: option.splits)
qed

text \<open>
  Claim C1. After a match of the trie (and of \<open>postMatchRE\<close>, if set) the resolver is
  to redirect when the route forces another scheme and to call the route's action
  otherwise, and to return true. Here the key \<open>abc\<close> matches the prefix route \<open>ab\<close>,
  which forces no scheme, has no \<open>postMatchRE\<close> and whose action returns; the
  resolver returns true, but it has answered with a 500 and has not called the action.
\<close>

theorem checkTrieRoutes_never_calls_action:
  "find_trie (trie sample_table) ''abc'' get_request =
     Some \<lparr>data = plain_route, match = ''ab''\<rparr> \<and>
   forceProto plain_route = [] \<and> postMatchRE plain_route = None \<and>
   action plain_route get_request \<lparr>arg0 = ''ab'', arg1 = ''c'', key = ''abc''\<rparr> =
     Returned (Bool True) \<and>
   checkTrieRoutes sample_table get_request = (True, [ErrorSent 500])"
proof -
  have k: "checkBasicsAndNormalizePath sample_table get_request = ''abc''"
    by (simp add: checkBasicsAndNormalizePath_def sample_table_def get_request_def)
  have t: "trie sample_table = sample_trie" by (simp add: sample_table_def)
  have "checkTrieRoutes sample_table get_request = (True, [ErrorSent 500])"
    by (rule checkTrieRoutes_matched [where result = "\<lparr>data = plain_route, match = ''ab''\<rparr>"])
       (simp_all add: k t find_sample_get plain_route_def)
  then show ?thesis
    by (simp add: t find_sample_get plain_route_def)
qed

section \<open>TrieRoute.find returns the shortest passing prefix\<close>

lemma node_at_append:
  "node_at t (xs @ ys) = (case node_at t xs of Some m \<Rightarrow> node_at m ys | None \<Rightarrow> None)"
  by (induction xs arbitrary: t) (auto split: option.splits)

lemma node_at_take_Suc:
  assumes "k < length p" and "node_at t (take k p) = Some n"
  shows "node_at t (take (Suc k) p) = map_of (children n) (p ! k)"
proof -
  have "take (Suc k) p = take k p @ [p ! k]"
    using assms(1) by (simp add: take_Suc_conv_app_nth)
  then show ?thesis
    using assms(2) by (simp add: node_at_append split: option.splits)
qed

lemma node_at_take_mono:
  assumes "node_at t (take d p) = Some n" and "k \<le> d"
  shows "\<exists>m. node_at t (take k p) = Some m"
proof -
  have "take d p = take k p @ drop k (take d p)"
    using assms(2) by (metis append_take_drop_id min.absorb1 take_take)
  then have "node_at t (take k p @ drop k (take d p)) = Some n"
    using assms(1) by simp
  then show ?thesis
    by (auto simp: node_at_append split: option.splits)
qed

lemma parseWord_hit:
  assumes "d \<le> length p" and "k \<le> d"
    and "node_at t (take k p) = Some node"
    and "prefixHit t p req d = Some r"
    and "\<forall>d'. k \<le> d' \<and> d' < d \<longrightarrow> prefixHit t p req d' = None"
  shows "parseWord req p node k = Some \<lparr>data = r, match = take d p\<rparr>"
  using assms
proof (induction "d - k" arbitrary: k node)
  case 0
  then have "k = d" by simp
  with 0 have "passing req (prefixTerminal node) = Some r"
    by (simp add: prefixHit_def)
  then show ?case
    using \<open>k = d\<close> by (subst parseWord.simps) simp
next
  case (Suc m)
  then have kd: "k < d" and kp: "k < length p" by auto
  with Suc.prems have "prefixHit t p req k = None" by auto
  with Suc.prems have nopass: "passing req (prefixTerminal node) = None"
    by (simp add: prefixHit_def)
  from Suc.prems(4) obtain n where "node_at t (take d p) = Some n"
    by (auto simp: prefixHit_def split: option.splits)
  then obtain child where child: "node_at t (take (Suc k) p) = Some child"
    using node_at_take_mono [of t d p n "Suc k"] kd by auto
  then have step: "map_of (children node) (p ! k) = Some child"
    using node_at_take_Suc [OF kp Suc.prems(3)] by simp
  have "parseWord req p child (Suc k) = Some \<lparr>data = r, match = take d p\<rparr>"
  proof (rule Suc.hyps(1))
    show "m = d - Suc k" using Suc.hyps(2) by simp
    show "d \<le> length p" by (rule Suc.prems(1))
    show "Suc k \<le> d" using kd by simp
    show "node_at t (take (Suc k) p) = Some child" by (rule child)
    show "prefixHit t p req d = Some r" by (rule Suc.prems(4))
    show "\<forall>d'. Suc k \<le> d' \<and> d' < d \<longrightarrow> prefixHit t p req d' = None"
      using Suc.prems(5) by auto
  qed
  then show ?case
    using nopass kp step by (subst parseWord.simps) simp
qed

lemma parseWord_miss:
  assumes "k \<le> length p"
    and "node_at t (take k p) = Some node"
    and "\<forall>d'. k \<le> d' \<and> d' \<le> length p \<longrightarrow> prefixHit t p req d' = None"
  shows "parseWord req p node k =
           (case exactHit t p req of Some r \<Rightarrow> Some \<lparr>data = r, match = p\<rparr> | None \<Rightarrow> None)"
  using assms
proof (induction "length p - k" arbitrary: k node)
  case 0
  then have "k = length p" by simp
  with 0 have nopass: "passing req (prefixTerminal node) = None"
    and ex: "exactHit t p req = passing req (exactTerminal node)"
    by (auto simp: prefixHit_def exactHit_def)
  show ?case
    using nopass ex \<open>k = length p\<close> by (subst parseWord.simps) (simp split: option.splits)
next
  case (Suc m)
  then have kp: "k < length p" by auto
  with Suc.prems have "prefixHit t p req k = None" by auto
  with Suc.prems have nopass: "passing req (prefixTerminal node) = None"
    by (simp add: prefixHit_def)
  have step: "node_at t (take (Suc k) p) = map_of (children node) (p ! k)"
    by (rule node_at_take_Suc [OF kp Suc.prems(2)])
  show ?case
  proof (cases "map_of (children node) (p ! k)")
    case None
    have "node_at t p = None"
    proof (rule ccontr)
      assume "node_at t p \<noteq> None"
      then obtain n where "node_at t (take (length p) p) = Some n" by auto
      then have "\<exists>c. node_at t (take (Suc k) p) = Some c"
        using node_at_take_mono [of t "length p" p n "Suc k"] kp by auto
      with step None show False by simp
    qed
    then have "exactHit t p req = None" by (simp add: exactHit_def)
    then show ?thesis
      using nopass kp None by (subst parseWord.simps) simp
  next
    case (Some child)
    have "parseWord req p child (Suc k) =
            (case exactHit t p req of Some r \<Rightarrow> Some \<lparr>data = r, match = p\<rparr> | None \<Rightarrow> None)"
    proof (rule Suc.hyps(1))
      show "m = length p - Suc k" using Suc.hyps(2) by simp
      show "Suc k \<le> length p" using kp by simp
      show "node_at t (take (Suc k) p) = Some child" using step Some by simp
      show "\<forall>d'. Suc k \<le> d' \<and> d' \<le> length p \<longrightarrow> prefixHit t p req d' = None"
        using Suc.prems(3) by auto
    qed
    then show ?thesis
      using nopass kp Some by (subst parseWord.simps) simp
  qed
qed

text \<open>
  Claim C2. For a path \<open>p\<close> that is not empty, \<open>find\<close> returns the prefix terminal
  at the least depth along \<open>p\<close> whose route passes \<open>doRuntimeChecks\<close>, with the
  prefix of \<open>p\<close> of that length as the match, whatever terminals lie deeper; when no
  prefix terminal along \<open>p\<close> passes, it returns the exact terminal at the end of
  \<open>p\<close> if there is one and its route passes, and \<open>null\<close> otherwise.
\<close>

theorem find_shortest_prefix:
  assumes "p \<noteq> []"
  shows "(\<forall>d r. d \<le> length p \<and> prefixHit t p req d = Some r \<and>
                (\<forall>d'<d. prefixHit t p req d' = None)
            \<longrightarrow> find_trie t p req = Some \<lparr>data = r, match = take d p\<rparr>) \<and>
         ((\<forall>d\<le>length p. prefixHit t p req d = None)
            \<longrightarrow> find_trie t p req =
                 (case exactHit t p req of
                    Some r \<Rightarrow> Some \<lparr>data = r, match = p\<rparr> | None \<Rightarrow> None))"
proof (intro conjI allI impI)
  fix d r
  assume h: "d \<le> length p \<and> prefixHit t p req d = Some r \<and>
             (\<forall>d'<d. prefixHit t p req d' = None)"
  have "parseWord req p t 0 = Some \<lparr>data = r, match = take d p\<rparr>"
    using h by (intro parseWord_hit [where t = t]) auto
  then show "find_trie t p req = Some \<lparr>data = r, match = take d p\<rparr>"
    using assms by (simp add: find_trie_def)
next
  assume h: "\<forall>d\<le>length p. prefixHit t p req d = None"
  have "parseWord req p t 0 =
          (case exactHit t p req of Some r \<Rightarrow> Some \<lparr>data = r, match = p\<rparr> | None \<Rightarrow> None)"
    using h by (intro parseWord_miss [where t = t]) auto
  then show "find_trie t p req =
          (case exactHit t p req of Some r \<Rightarrow> Some \<lparr>data = r, match = p\<rparr> | None \<Rightarrow> None)"
    using assms by (simp add: find_trie_def)
qed

lemma take_abc:
  "take 0 ''abc'' = []" "take 1 ''abc'' = ''a''" "take 2 ''abc'' = ''ab''"
  "take 3 ''abc'' = ''abc''"
  by (simp_all add: numeral_2_eq_2 numeral_3_eq_3)

lemma prefixHit_get:
  "prefixHit sample_trie ''abc'' get_request 0 = None"
  "prefixHit sample_trie ''abc'' get_request 1 = None"
  "prefixHit sample_trie ''abc'' get_request 2 = Some plain_route"
  by (simp_all add: prefixHit_def take_abc sample_trie_def passing_def get_passes_plain)

lemma prefixHit_post: "d \<le> 3 \<Longrightarrow> prefixHit sample_trie ''abc'' post_request d = None"
proof -
  assume "d \<le> 3"
  then consider "d = 0" | "d = 1" | "d = 2" | "d = 3" by linarith
  then show ?thesis
    by cases (simp_all add: prefixHit_def take_abc sample_trie_def passing_def post_fails_plain)
qed

theorem find_shortest_prefix_witness:
  "find_trie sample_trie ''abc'' get_request = Some \<lparr>data = plain_route, match = ''ab''\<rparr> \<and>
   find_trie sample_trie ''abc'' post_request = Some \<lparr>data = write_route, match = ''abc''\<rparr>"
proof
  have ne: "''abc'' \<noteq> []" by simp
  have "\<forall>d'<2. prefixHit sample_trie ''abc'' get_request d' = None"
  proof (intro allI impI)
    fix d' :: nat assume "d' < 2"
    then consider "d' = 0" | "d' = 1" by linarith
    then show "prefixHit sample_trie ''abc'' get_request d' = None"
      using prefixHit_get(1,2) by cases auto
  qed
  moreover have "(2::nat) \<le> length ''abc''" by simp
  moreover note prefixHit_get(3)
  ultimately have
    "find_trie sample_trie ''abc'' get_request = Some \<lparr>data = plain_route, match = take 2 ''abc''\<rparr>"
    using find_shortest_prefix [OF ne, of sample_trie get_request] by blast
  then show "find_trie sample_trie ''abc'' get_request = Some \<lparr>data = plain_route, match = ''ab''\<rparr>"
    by (simp add: take_abc)
next
  have ne: "''abc'' \<noteq> []" by simp
  have ex: "exactHit sample_trie ''abc'' post_request = Some write_route"
    by (simp add: exactHit_def sample_trie_def passing_def post_passes_write)
  have "\<forall>d\<le>length ''abc''. prefixHit sample_trie ''abc'' post_request d = None"
    using prefixHit_post by simp
  then show
    "find_trie sample_trie ''abc'' post_request = Some \<lparr>data = write_route, match = ''abc''\<rparr>"
    using find_shortest_prefix [OF ne, of sample_trie post_request] ex by simp
qed

section \<open>doRuntimeChecks and the scheme of the request\<close>

text \<open>
  Claim C3. \<open>doRuntimeChecks\<close> is to pass a route whose \<open>protoMatch\<close> equals the
  scheme of the request. The request the router passes in keeps its scheme under
  \<open>proto\<close>; the check reads \<open>req.protocol\<close>. Here the request is an https request,
  the route asks for https and sets no other filter, the same route without
  \<open>protoMatch\<close> passes, and the check fails.
\<close>

theorem doRuntimeChecks_protoMatch_rejected:
  "protoMatch https_only_route = proto get_request \<and>
   doRuntimeChecks get_request (https_only_route\<lparr>protoMatch := []\<rparr>) \<and>
   \<not> doRuntimeChecks get_request https_only_route"
  by (simp add: doRuntimeChecks_RomRequest get_request_def https_only_route_def plain_route_def
      writeMethods_def)

section \<open>normalizeAndReduce\<close>


lemma hex_not_question: "isHexDigit h \<Longrightarrow> h \<noteq> CHR ''?''"
  by (auto simp: isHexDigit_def Let_def)


















section \<open>The routing passes of a request\<close>

lemma doRoute_entries:
  "doRoute st ht req = (req', entries) \<Longrightarrow>
     map fst entries = [routePass req ..< routePass req + length entries] \<and>
     routePass req' = routePass req + length entries \<and>
     entries \<noteq> [] \<and>
     (\<forall>e \<in> set entries. (snd e = RetryExceeded) = (retryLimit st < int (fst e))) \<and>
     int (length (filter (\<lambda>e. snd e \<noteq> RetryExceeded) entries))
       \<le> max 0 (retryLimit st + 1 - int (routePass req))"
proof (induction "nat (retryLimit st + 1 - int (routePass req))"
         arbitrary: req req' entries rule: less_induct)
  case less
  define req1 where "req1 = req\<lparr>routePass := routePass req + 1\<rparr>"
  show ?case
  proof (cases "retryLimit st < int (routePass req)")
    case True
    then have "entries = [(routePass req, RetryExceeded)]" "req' = req1"
      using less.prems by (auto simp: doRoute.simps [of st ht req] Let_def req1_def)
    then show ?thesis using True by (simp add: req1_def)
  next
    case False
    show ?thesis
    proof (cases "\<exists>host p u h. getHost ht (hostname req1) = Found (Entry host) \<and>
                    runResolvers (routeResolvers host) req1 = Rewritten p u h")
      case True
      then obtain host p u h where f: "getHost ht (hostname req1) = Found (Entry host)"
        and rw: "runResolvers (routeResolvers host) req1 = Rewritten p u h" by blast
      define req2 where
        "req2 = req1\<lparr>path := p, normalizedPath := toLowerCase p, url := u, href := h\<rparr>"
      obtain r tr where inner: "doRoute st ht req2 = (r, tr)"
        by (cases "doRoute st ht req2") auto
      have out: "req' = r" "entries = (routePass req, Rerouted) # tr"
        using less.prems False f rw inner
        by (auto simp: doRoute.simps [of st ht req] Let_def req1_def req2_def)
      have p2: "routePass req2 = routePass req + 1" by (simp add: req2_def req1_def)
      have smaller: "nat (retryLimit st + 1 - int (routePass req2))
                       < nat (retryLimit st + 1 - int (routePass req))"
        using False p2 by simp
      have ih: "map fst tr = [routePass req2 ..< routePass req2 + length tr] \<and>
          routePass r = routePass req2 + length tr \<and> tr \<noteq> [] \<and>
          (\<forall>e \<in> set tr. (snd e = RetryExceeded) = (retryLimit st < int (fst e))) \<and>
          int (length (filter (\<lambda>e. snd e \<noteq> RetryExceeded) tr))
            \<le> max 0 (retryLimit st + 1 - int (routePass req2))"
        by (rule less.hyps [OF smaller inner])
      have m: "[routePass req ..< routePass req + length ((routePass req, Rerouted) # tr)] =
               routePass req # [routePass req + 1 ..< routePass req + 1 + length tr]"
        by (simp add: upt_rec)
      show ?thesis
        using ih False unfolding out p2 m by auto
    next
      case nr: False
      then have "\<exists>res. entries = [(routePass req, res)] \<and> res \<noteq> RetryExceeded" "req' = req1"
        using less.prems False
        by (auto simp: doRoute.simps [of st ht req] Let_def req1_def
            split: host_lookup.splits slot.splits resolution.splits prod.splits)
      then show ?thesis using False by (auto simp: req1_def)
    qed
  qed
qed

text \<open>
  Claim C5. A request starts with \<open>routePass\<close> 0; every entry to \<open>doRoute\<close> reads it
  and adds one, so the entries of one request read 0, 1, 2, ...; an entry fails the
  request for the retry limit (a 500) exactly when the value it reads exceeds
  \<open>retryLimit\<close>; so at most \<open>retryLimit + 1\<close> entries route, and the recursion ends.
\<close>

theorem routePass_bounded:
  "routePass (RomRequest req) = 0 \<and>
   (let (req', entries) = doRoute st ht (RomRequest req)
    in map fst entries = [0 ..< length entries] \<and>
       routePass req' = length entries \<and>
       entries \<noteq> [] \<and>
       (\<forall>e \<in> set entries. (snd e = RetryExceeded) = (retryLimit st < int (fst e))) \<and>
       errorStatus RetryExceeded = Some 500 \<and>
       int (length (filter (\<lambda>e. snd e \<noteq> RetryExceeded) entries)) \<le> max 0 (retryLimit st + 1))"
proof -
  have z: "routePass (RomRequest req) = 0" by (simp add: RomRequest_def)
  obtain req' entries where d: "doRoute st ht (RomRequest req) = (req', entries)"
    by (cases "doRoute st ht (RomRequest req)") auto
  show ?thesis
    using doRoute_entries [OF d] z by (simp add: d)
qed

lemma lower_example: "toLowerCase ''example.com'' = ''example.com''"
  by code_simp

lemma getHost_looping:
  "getHost looping_table ''example.com'' =
     Found (Entry \<lparr>config = plain_host, routeResolvers = [appending]\<rparr>)"
  by (simp add: getHost_def readHosts_def looping_table_def inherited_def
      objectPrototypeMethods_def lower_example)

lemma doRoute_looping_step:
  "int (routePass req) \<le> retryLimit st \<Longrightarrow> hostname req = ''example.com'' \<Longrightarrow>
   doRoute st looping_table req =
     (let (req2, entries) =
        doRoute st looping_table
          (req\<lparr>routePass := routePass req + 1, path := path req @ ''x'',
               normalizedPath := toLowerCase (path req @ ''x''),
               url := url req @ ''x'', href := href req @ ''x''\<rparr>)
      in (req2, (routePass req, Rerouted) # entries))"
  by (subst doRoute.simps) (simp add: Let_def getHost_looping appending_def)

lemma doRoute_looping_stop:
  "retryLimit st < int (routePass req) \<Longrightarrow>
   doRoute st looping_table req = (req\<lparr>routePass := routePass req + 1\<rparr>, [(routePass req, RetryExceeded)])"
  by (subst doRoute.simps) (simp add: Let_def)

lemma looping_entries:
  "snd (doRoute \<lparr>retryLimit = 2\<rparr> looping_table (RomRequest get_request)) =
     [(0, Rerouted), (1, Rerouted), (2, Rerouted), (3, RetryExceeded)]"
  by (simp add: doRoute_looping_step doRoute_looping_stop RomRequest_def get_request_def
      split_def)

theorem routePass_bounded_witness:
  "snd (doRoute \<lparr>retryLimit = 2\<rparr> looping_table (RomRequest get_request)) =
     [(0, Rerouted), (1, Rerouted), (2, Rerouted), (3, RetryExceeded)] \<and>
   routePass (fst (doRoute \<lparr>retryLimit = 2\<rparr> looping_table (RomRequest get_request))) = 4 \<and>
   int (length (filter (\<lambda>e. snd e \<noteq> RetryExceeded)
     (snd (doRoute \<lparr>retryLimit = 2\<rparr> looping_table (RomRequest get_request))))) \<le> 3"
  using routePass_bounded [of get_request "\<lparr>retryLimit = 2\<rparr>" looping_table] looping_entries
  by (simp add: split_def)

section \<open>HostTable: a hostname bound twice\<close>

lemma lower_names: "toLowerCase ''a.com'' = ''a.com''" "toLowerCase ''A.com'' = ''a.com''"
  by code_simp+

lemma valid_names: "isHostnameValid ''a.com''" "isHostnameValid ''A.com''"
  by code_simp+

lemma hostConfig_plain: "hostConfig no_overrides first_binding = Inr plain_host"
  "hostConfig no_overrides second_binding = Inr plain_host"
  by (simp_all add: hostConfig_def mergedOrNull_def no_overrides_def first_binding_def
      second_binding_def plain_host_def)

lemma binding_fields:
  "hostnames first_binding = [''a.com'']" "routeTables first_binding = [''main'']"
  "hostnames second_binding = [''A.com'']" "routeTables second_binding = [''other'']"
  by (simp_all add: first_binding_def second_binding_def)

lemma config_fields:
  "routeTableObjects sample_config = [''main'' \<mapsto> answering, ''other'' \<mapsto> declining]"
  "subs sample_config = Null" "defaults sample_config = no_overrides"
  by (simp_all add: sample_config_def)

lemma first_entry:
  "hostEntry sample_config first_binding \<lparr>count = c, hasDefaultHost = False, hosts = Map.empty, hostsPrototype = None\<rparr> =
     Inr \<lparr>count = c + 1, hasDefaultHost = False,
          hosts = [''a.com'' \<mapsto> \<lparr>config = plain_host, routeResolvers = [answering]\<rparr>],
      hostsPrototype = None\<rparr>"
  by (simp add: hostEntry_def hostConfig_plain binding_fields config_fields lower_names valid_names
      readHosts_def writeHosts_def inherited_def objectPrototypeMethods_def Let_def)

lemma second_entry:
  "hostEntry sample_config second_binding
     \<lparr>count = c, hasDefaultHost = False,
      hosts = [''a.com'' \<mapsto> \<lparr>config = plain_host, routeResolvers = [answering]\<rparr>],
      hostsPrototype = None\<rparr> =
     Inr \<lparr>count = c + 1, hasDefaultHost = False,
          hosts = [''a.com'' \<mapsto> \<lparr>config = plain_host, routeResolvers = [declining]\<rparr>],
          hostsPrototype = None\<rparr>"
  by (simp add: hostEntry_def hostConfig_plain binding_fields config_fields lower_names valid_names
      readHosts_def writeHosts_def inherited_def objectPrototypeMethods_def Let_def)

text \<open>
  The test for a second binding asks whether the slot holds an array that is not
  empty. It never does: the only array within reach is the \<open>routeResolvers\<close> of a
  host object that has become the prototype, and the name read is in small letters.
\<close>

lemma lower_char_not_R: "lower_char c \<noteq> CHR ''R''"
proof
  assume a: "lower_char c = CHR ''R''"
  have "(of_char (lower_char c) :: nat) = 82" unfolding a by simp
  then show False
    by (auto simp: lower_char_def Let_def split: if_splits)
qed

lemma toLowerCase_not_routeResolvers: "toLowerCase n \<noteq> ''routeResolvers''"
proof
  assume "toLowerCase n = ''routeResolvers''"
  then have "CHR ''R'' \<in> set (map lower_char n)" by (simp add: toLowerCase_def)
  then obtain c where "lower_char c = CHR ''R''" by auto
  then show False by (simp add: lower_char_not_R)
qed

lemma duplicate_test_never_holds: "\<not> isNonEmptyArray (readHosts ht (toLowerCase n))"
  using toLowerCase_not_routeResolvers [of n]
  by (auto simp: readHosts_def inherited_def split: option.splits)

text \<open>
  Claim C6. Building a \<open>HostTable\<close> from a configuration that binds one hostname
  twice is to raise a build error. Here the first entry binds \<open>a.com\<close> to the table
  \<open>main\<close> and the second binds \<open>A.com\<close>, the same name once in small letters, to
  the table \<open>other\<close>: the build succeeds, counts two hostnames, and keeps the second
  binding.
\<close>

theorem HostTable_keeps_second_binding:
  "HostTable [first_binding, second_binding] sample_config =
     Inr \<lparr>count = 2, hasDefaultHost = False,
          hosts = [''a.com'' \<mapsto> \<lparr>config = plain_host, routeResolvers = [declining]\<rparr>],
          hostsPrototype = None\<rparr>"
  by (simp add: HostTable_def first_entry second_entry)

section \<open>HostTable.getHost and the unknown host\<close>

lemma toLowerCase_Nil: "toLowerCase n = [] \<longleftrightarrow> n = []"
  by (simp add: toLowerCase_def)

lemma bound_name_not_empty:
  "\<not> (\<not> isHostnameValid n1 \<and> n1 \<noteq> ''*'') \<Longrightarrow> toLowerCase n1 \<noteq> []"
  by (auto simp: isHostnameValid_def toLowerCase_Nil)

lemma bind_consistent:
  assumes "consistent ht" and "n \<noteq> []"
  shows "consistent ((writeHosts ht n entry)
            \<lparr>hasDefaultHost := (if n = ''*'' then True else hasDefaultHost ht),
             count := count ht + 1\<rparr>)"
  using assms by (auto simp: consistent_def writeHosts_def)

lemma bindHostnames_consistent:
  "consistent ht \<Longrightarrow> bindHostnames sb entry ns ht = Inr ht' \<Longrightarrow> consistent ht'"
proof (induction ns arbitrary: ht)
  case Nil
  then show ?case by simp
next
  case (Cons n0 rest)
  define n1 where "n1 = (if sb \<noteq> Null then substituteName n0 sb else n0)"
  define ht1 where "ht1 = (writeHosts ht (toLowerCase n1) entry)
          \<lparr>hasDefaultHost := (if toLowerCase n1 = ''*'' then True else hasDefaultHost ht),
           count := count ht + 1\<rparr>"
  have eq: "bindHostnames sb entry (n0 # rest) ht =
      (if sb \<noteq> Null \<and> n1 = [] then bindHostnames sb entry rest ht
       else if \<not> isHostnameValid n1 \<and> n1 \<noteq> ''*'' then Inl (InvalidHostname n1)
       else bindHostnames sb entry rest ht1)"
    unfolding n1_def ht1_def by (simp add: Let_def duplicate_test_never_holds)
  show ?case
  proof (cases "sb \<noteq> Null \<and> n1 = []")
    case True
    then have "bindHostnames sb entry rest ht = Inr ht'"
      using Cons.prems(2) unfolding eq by simp
    then show ?thesis using Cons.IH Cons.prems(1) by blast
  next
    case False
    show ?thesis
    proof (cases "\<not> isHostnameValid n1 \<and> n1 \<noteq> ''*''")
      case True
      then show ?thesis using Cons.prems(2) False unfolding eq by simp
    next
      case valid: False
      then have "toLowerCase n1 \<noteq> []" by (rule bound_name_not_empty)
      then have c1: "consistent ht1"
        unfolding ht1_def using Cons.prems(1) by (rule bind_consistent [rotated])
      have "bindHostnames sb entry rest ht1 = Inr ht'"
        using Cons.prems(2) False valid unfolding eq by simp
      then show ?thesis using Cons.IH c1 by blast
    qed
  qed
qed

lemma hostEntry_consistent:
  "consistent ht \<Longrightarrow> hostEntry cfg h ht = Inr ht' \<Longrightarrow> consistent ht'"
  by (auto simp: hostEntry_def split: if_splits sum.splits dest: bindHostnames_consistent)

lemma hostEntries_consistent:
  "consistent ht \<Longrightarrow> hostEntries cfg i src ht = Inr ht' \<Longrightarrow> consistent ht'"
proof (induction src arbitrary: ht i)
  case Nil
  then show ?case by simp
next
  case (Cons h rest)
  then show ?case
    by (auto split: sum.splits dest: hostEntry_consistent)
qed

lemma HostTable_consistent: "HostTable src cfg = Inr ht \<Longrightarrow> consistent ht"
proof -
  assume b: "HostTable src cfg = Inr ht"
  have "consistent \<lparr>count = 0, hasDefaultHost = False, hosts = Map.empty, hostsPrototype = None\<rparr>"
    by (simp add: consistent_def)
  then show ?thesis
    using b by (auto simp: HostTable_def split: if_splits dest: hostEntries_consistent)
qed

lemma doRoute_invalid_host:
  assumes "getHost ht (hostname req) = NullHost" and "int (routePass req) \<le> retryLimit st"
  shows "snd (doRoute st ht req) = [(routePass req, InvalidHost)]"
  using assms by (subst doRoute.simps) (simp add: Let_def)

lemma inherited_not_object: "\<not> isObjectSlot (inherited n)"
  by (simp add: inherited_def)

text \<open>
  For every name but \<open>__proto__\<close> the lookup is what its documentation says, in a
  table that the constructor built without binding \<open>__proto__\<close>: the entry bound to
  the name in small letters, else the entry of \<open>*\<close>, else \<open>null\<close>, which \<open>doRoute\<close>
  answers with a 503.
\<close>

lemma getHost_other_names:
  assumes "HostTable src cfg = Inr ht" and "hostsPrototype ht = None"
    and "toLowerCase h \<noteq> ''__proto__''"
  shows "getHost ht h =
           (case hosts ht (toLowerCase h) of
              Some entry \<Rightarrow> Found (Entry entry)
            | None \<Rightarrow>
                (case hosts ht ''*'' of
                   Some dflt \<Rightarrow> Found (Entry dflt)
                 | None \<Rightarrow> NullHost))"
proof -
  have c: "consistent ht" using assms(1) by (rule HostTable_consistent)
  show ?thesis
  proof (cases "h = []")
    case True
    then show ?thesis
      using c assms(2)
      by (auto simp: getHost_def readHosts_def consistent_def toLowerCase_def
          inherited_not_object split: option.splits)
  next
    case False
    then show ?thesis
      using c assms(2,3)
      by (auto simp: getHost_def readHosts_def consistent_def inherited_not_object
          split: option.splits)
  qed
qed

lemma null_host_is_503:
  "getHost ht (hostname req) = NullHost \<Longrightarrow> int (routePass req) \<le> retryLimit st \<Longrightarrow>
   map (\<lambda>e. errorStatus (snd e)) (snd (doRoute st ht req)) = [Some 503]"
  by (simp add: doRoute_invalid_host)

lemma single_binding: "HostTable [first_binding] sample_config = Inr single_table"
  by (simp add: HostTable_def first_entry single_table_def)

lemma lower_star: "toLowerCase ''*'' = ''*''"
  by code_simp

lemma valid_proto: "isHostnameValid ''__proto__''"
  by code_simp

lemma lower_proto: "toLowerCase ''__proto__'' = ''__proto__''"
  by code_simp

lemma default_only: "HostTable [default_binding] sample_config = Inr default_table"
proof -
  have h: "hostConfig no_overrides default_binding = Inr plain_host"
    by (simp add: hostConfig_def mergedOrNull_def no_overrides_def default_binding_def
        plain_host_def)
  have f: "hostnames default_binding = [''*'']" "routeTables default_binding = [''main'']"
    by (simp_all add: default_binding_def)
  have "hostEntry sample_config default_binding
          \<lparr>count = 0, hasDefaultHost = False, hosts = Map.empty, hostsPrototype = None\<rparr> =
        Inr default_table"
    by (simp add: hostEntry_def h f config_fields lower_star readHosts_def writeHosts_def
        inherited_def objectPrototypeMethods_def default_table_def Let_def)
  then show ?thesis by (simp add: HostTable_def)
qed

lemma proto_request_fields:
  "hostname (RomRequest proto_request) = ''__proto__''"
  "routePass (RomRequest proto_request) = 0"
  by (simp_all add: RomRequest_def proto_request_def get_request_def)

lemma getHost_proto_single: "getHost single_table ''__proto__'' = Found ObjectPrototype"
  by (simp add: getHost_def readHosts_def single_table_def lower_proto)

lemma getHost_proto_default: "getHost default_table ''__proto__'' = Found ObjectPrototype"
  by (simp add: getHost_def readHosts_def default_table_def lower_proto)

lemma doRoute_proto:
  "getHost ht ''__proto__'' = Found ObjectPrototype \<Longrightarrow>
   snd (doRoute \<lparr>retryLimit = 20\<rparr> ht (RomRequest proto_request)) = [(0, Crashed)]"
  by (subst doRoute.simps) (simp add: Let_def proto_request_fields)

text \<open>
  Claim C7. On a lookup miss \<open>getHost\<close> is to return the entry of \<open>*\<close> if one is
  defined and \<open>null\<close> otherwise, and \<open>doRoute\<close> is to answer \<open>null\<close> with a 503. The
  name \<open>__proto__\<close> is a valid hostname that neither table below binds; but
  \<open>this.hosts\<close> is a plain object, so \<open>this.hosts['__proto__']\<close> is
  \<open>Object.prototype\<close>, which passes the test \<open>typeof ... === 'object'\<close>. In the
  table without a default \<open>getHost\<close> returns it where \<open>null\<close> is due, and the request
  is answered with a 500, not a 503; in the table with the default it returns it where
  the entry of \<open>*\<close> is due, and the request is answered with a 500 where the default
  host would have answered.
\<close>

theorem getHost_returns_Object_prototype:
  "isHostnameValid ''__proto__'' \<and>
   HostTable [first_binding] sample_config = Inr single_table \<and>
   hosts single_table (toLowerCase ''__proto__'') = None \<and>
   hosts single_table ''*'' = None \<and>
   getHost single_table ''__proto__'' = Found ObjectPrototype \<and>
   getHost single_table ''__proto__'' \<noteq> NullHost \<and>
   map (\<lambda>e. errorStatus (snd e))
     (snd (doRoute \<lparr>retryLimit = 20\<rparr> single_table (RomRequest proto_request))) = [Some 500] \<and>
   HostTable [default_binding] sample_config = Inr default_table \<and>
   hosts default_table (toLowerCase ''__proto__'') = None \<and>
   hosts default_table ''*'' = Some \<lparr>config = plain_host, routeResolvers = [answering]\<rparr> \<and>
   getHost default_table ''__proto__'' = Found ObjectPrototype \<and>
   map (\<lambda>e. errorStatus (snd e))
     (snd (doRoute \<lparr>retryLimit = 20\<rparr> default_table (RomRequest proto_request))) = [Some 500]"
proof -
  have a: "hosts single_table (toLowerCase ''__proto__'') = None"
    "hosts single_table ''*'' = None"
    by (simp_all add: single_table_def lower_proto)
  have b: "hosts default_table (toLowerCase ''__proto__'') = None"
    "hosts default_table ''*'' = Some \<lparr>config = plain_host, routeResolvers = [answering]\<rparr>"
    by (simp_all add: default_table_def lower_proto)
  show ?thesis
    using valid_proto single_binding default_only a b getHost_proto_single getHost_proto_default
      doRoute_proto [OF getHost_proto_single] doRoute_proto [OF getHost_proto_default]
    by simp
qed

section \<open>HttpError: status code and message\<close>

lemma inRange_iff: "inRange n \<longleftrightarrow> num_gt n 0 \<and> num_lt n 600"
  by (cases n) (simp_all add: inRange_def)

lemma inRange_finite: "inRange n \<Longrightarrow> \<exists>x. n = Fin x \<and> 0 < x \<and> x < 600"
  by (cases n) (simp_all add: inRange_def)

lemma toNumber_Num: "toNumber cv (Num n) = n"
  by (simp add: toNumber_def)

text \<open>The three branches of the constructor, against the status that the arguments
  supply and the message string that they give.\<close>

lemma HttpError_args_status:
  "snd (HttpError_args cv msg status) =
     (case suppliedStatus cv msg status of Some n \<Rightarrow> Num n | None \<Rightarrow> status)"
  by (cases msg)
    (simp_all add: HttpError_args_def suppliedStatus_def statusFromArgument_def)

lemma HttpError_args_message:
  "(case fst (HttpError_args cv msg status) of Str s \<Rightarrow> Some s | _ \<Rightarrow> None) =
     givenMessage cv msg status"
  by (cases msg)
    (auto simp: HttpError_args_def givenMessage_def statusFromArgument_def)

lemma no_status_supplied:
  "suppliedStatus cv msg status = None \<Longrightarrow> \<not> num_gt (toNumber cv status) 0"
  by (cases msg) (auto simp: suppliedStatus_def statusFromArgument_def split: if_splits)

lemma statusCode_HttpError:
  "statusCode (HttpError cv msg status) =
     (if validStatus cv (snd (HttpError_args cv msg status))
      then snd (HttpError_args cv msg status) else Num (Fin 500))"
  by (simp add: HttpError_def validStatus_def split_def Let_def)

lemma message_HttpError:
  "message (HttpError cv msg status) =
     (case fst (HttpError_args cv msg status) of
        Str s \<Rightarrow> s
      | _ \<Rightarrow> getErrorMessage (statusCode (HttpError cv msg status)))"
  unfolding statusCode_HttpError
  by (auto simp: HttpError_def validStatus_def split_def Let_def)

lemma statusCode_supplied:
  "statusCode (HttpError cv msg status) =
     Num (case suppliedStatus cv msg status of
            Some n \<Rightarrow> if inRange n then n else Fin 500
          | None \<Rightarrow> Fin 500)"
proof (cases "suppliedStatus cv msg status")
  case None
  then have "snd (HttpError_args cv msg status) = status"
    by (simp add: HttpError_args_status)
  moreover have "\<not> validStatus cv status"
    using no_status_supplied [OF None] by (simp add: validStatus_def)
  ultimately show ?thesis using None by (simp add: statusCode_HttpError)
next
  case (Some n)
  then have "snd (HttpError_args cv msg status) = Num n"
    by (simp add: HttpError_args_status)
  then show ?thesis
    using Some by (simp add: statusCode_HttpError validStatus_def toNumber_Num inRange_iff)
qed

lemma statusCode_range:
  "\<exists>x. statusCode (HttpError cv msg status) = Num (Fin x) \<and> 0 < x \<and> x < 600"
proof (cases "suppliedStatus cv msg status")
  case None
  then show ?thesis by (simp add: statusCode_supplied)
next
  case (Some n)
  show ?thesis
  proof (cases "inRange n")
    case True
    then show ?thesis
      using Some inRange_finite [OF True] by (auto simp: statusCode_supplied)
  next
    case False
    then show ?thesis using Some by (simp add: statusCode_supplied)
  qed
qed

lemma message_given:
  "message (HttpError cv msg status) =
     (case givenMessage cv msg status of
        Some s \<Rightarrow> s
      | None \<Rightarrow> getErrorMessage (statusCode (HttpError cv msg status)))"
proof -
  have "givenMessage cv msg status =
      (case fst (HttpError_args cv msg status) of Str s \<Rightarrow> Some s | _ \<Rightarrow> None)"
    by (simp add: HttpError_args_message)
  then show ?thesis
    by (cases "fst (HttpError_args cv msg status)") (simp_all add: message_HttpError)
qed

text \<open>
  Claim C8, amended. The status code of every \<open>HttpError\<close> is the status that the
  arguments supply when that is a number above 0 and below 600 (1 to 599 for whole
  numbers), and 500 otherwise, also when they supply none; so it is always a number
  above 0 and below 600. The message is the message string given, and when none is
  given it is the phrase of the table for that status code, or \<open>Unknown\<close>.
\<close>

theorem HttpError_status_and_message:
  "statusCode (HttpError cv msg status) =
     Num (case suppliedStatus cv msg status of
            Some n \<Rightarrow> if inRange n then n else Fin 500
          | None \<Rightarrow> Fin 500) \<and>
   (\<exists>x. statusCode (HttpError cv msg status) = Num (Fin x) \<and> 0 < x \<and> x < 600) \<and>
   message (HttpError cv msg status) =
     (case givenMessage cv msg status of
        Some s \<Rightarrow> s
      | None \<Rightarrow> getErrorMessage (statusCode (HttpError cv msg status)))"
  using statusCode_supplied [of cv msg status] statusCode_range [of cv msg status]
    message_given [of cv msg status]
  by blast

text \<open>
  Claim C8, as stated, fails: the status 42 is kept, and 42 is not within 100 to 599.
  The guard of the constructor is \<open>status > 0 && status < 600\<close>.
\<close>

theorem HttpError_status_below_100:
  "statusCode (HttpError no_conversions (Num (Fin 42)) Undefined) = Num (Fin 42) \<and>
   \<not> statusWithin 100 599 (statusCode (HttpError no_conversions (Num (Fin 42)) Undefined))"
  by (simp add: HttpError_def HttpError_args_def toNumber_def statusWithin_def Let_def)

lemma phrases:
  "getErrorMessage (Num (Fin 404)) = ''Not Found''"
  "getErrorMessage (Num (Fin 500)) = ''Internal Server Error''"
  "getErrorMessage (Num (Fin 12)) = ''Unknown''"
  by (simp_all add: getErrorMessage_def errorCodes_def)

lemma sample_Number:
  "js_Number decimal_conversions Undefined = NaN"
  "js_Number decimal_conversions (Str ''404'') = Fin 404"
  by code_simp+

lemma sample_parseInt:
  "js_parseInt decimal_conversions ''404'' = Fin 404"
  "js_parseInt decimal_conversions ''12 monkeys'' = Fin 12"
  "js_parseInt decimal_conversions ''gone'' = NaN"
  by code_simp+

lemma sample_supplied:
  "suppliedStatus decimal_conversions (Num (Fin 404)) Undefined = Some (Fin 404)"
  "suppliedStatus decimal_conversions (Str ''gone'') (Str ''404'') = Some (Fin 404)"
  "suppliedStatus decimal_conversions (Str ''gone'') (Num (Fin 700)) = Some (Fin 700)"
  "suppliedStatus decimal_conversions (Str ''12 monkeys'') Undefined = Some (Fin 12)"
  "suppliedStatus decimal_conversions (Str ''404'') Undefined = Some (Fin 404)"
  "suppliedStatus decimal_conversions (Str ''gone'') Undefined = Some NaN"
  "suppliedStatus decimal_conversions Undefined Undefined = None"
  by (simp_all add: suppliedStatus_def statusFromArgument_def toNumber_def sample_Number
      sample_parseInt)

lemma sample_given:
  "givenMessage decimal_conversions (Num (Fin 404)) Undefined = None"
  "givenMessage decimal_conversions (Str ''gone'') (Str ''404'') = Some ''gone''"
  "givenMessage decimal_conversions (Str ''gone'') (Num (Fin 700)) = Some ''gone''"
  "givenMessage decimal_conversions (Str ''12 monkeys'') Undefined = Some ''12 monkeys''"
  "givenMessage decimal_conversions (Str ''404'') Undefined = None"
  "givenMessage decimal_conversions (Str ''gone'') Undefined = Some ''gone''"
  "givenMessage decimal_conversions Undefined Undefined = None"
  by (simp_all add: givenMessage_def statusFromArgument_def toNumber_def sample_Number
      sample_parseInt)

theorem HttpError_status_and_message_witness:
  "HttpError decimal_conversions (Num (Fin 404)) Undefined =
     \<lparr>statusCode = Num (Fin 404), message = ''Not Found''\<rparr> \<and>
   HttpError decimal_conversions (Str ''gone'') (Str ''404'') =
     \<lparr>statusCode = Num (Fin 404), message = ''gone''\<rparr> \<and>
   HttpError decimal_conversions (Str ''gone'') (Num (Fin 700)) =
     \<lparr>statusCode = Num (Fin 500), message = ''gone''\<rparr> \<and>
   HttpError decimal_conversions (Str ''12 monkeys'') Undefined =
     \<lparr>statusCode = Num (Fin 12), message = ''12 monkeys''\<rparr> \<and>
   HttpError decimal_conversions (Str ''404'') Undefined =
     \<lparr>statusCode = Num (Fin 404), message = ''Not Found''\<rparr> \<and>
   HttpError decimal_conversions (Str ''gone'') Undefined =
     \<lparr>statusCode = Num (Fin 500), message = ''gone''\<rparr> \<and>
   HttpError decimal_conversions Undefined Undefined =
     \<lparr>statusCode = Num (Fin 500), message = ''Internal Server Error''\<rparr>"
proof -
  note h = HttpError_status_and_message [of decimal_conversions]
  have r: "\<And>e c m. statusCode e = c \<Longrightarrow> message e = m \<Longrightarrow>
      e = \<lparr>statusCode = c, message = m\<rparr>"
    by simp
  have a: "HttpError decimal_conversions (Num (Fin 404)) Undefined =
      \<lparr>statusCode = Num (Fin 404), message = ''Not Found''\<rparr>"
    using h [of "Num (Fin 404)" Undefined]
    by (intro r) (simp_all add: sample_supplied sample_given inRange_def phrases)
  have b: "HttpError decimal_conversions (Str ''gone'') (Str ''404'') =
      \<lparr>statusCode = Num (Fin 404), message = ''gone''\<rparr>"
    using h [of "Str ''gone''" "Str ''404''"]
    by (intro r) (simp_all add: sample_supplied sample_given inRange_def phrases)
  have c: "HttpError decimal_conversions (Str ''gone'') (Num (Fin 700)) =
      \<lparr>statusCode = Num (Fin 500), message = ''gone''\<rparr>"
    using h [of "Str ''gone''" "Num (Fin 700)"]
    by (intro r) (simp_all add: sample_supplied sample_given inRange_def phrases)
  have d: "HttpError decimal_conversions (Str ''12 monkeys'') Undefined =
      \<lparr>statusCode = Num (Fin 12), message = ''12 monkeys''\<rparr>"
    using h [of "Str ''12 monkeys''" Undefined]
    by (intro r) (simp_all add: sample_supplied sample_given inRange_def phrases)
  have e: "HttpError decimal_conversions (Str ''404'') Undefined =
      \<lparr>statusCode = Num (Fin 404), message = ''Not Found''\<rparr>"
    using h [of "Str ''404''" Undefined]
    by (intro r) (simp_all add: sample_supplied sample_given inRange_def phrases)
  have f: "HttpError decimal_conversions (Str ''gone'') Undefined =
      \<lparr>statusCode = Num (Fin 500), message = ''gone''\<rparr>"
    using h [of "Str ''gone''" Undefined]
    by (intro r) (simp_all add: sample_supplied sample_given inRange_def phrases)
  have g: "HttpError decimal_conversions Undefined Undefined =
      \<lparr>statusCode = Num (Fin 500), message = ''Internal Server Error''\<rparr>"
    using h [of Undefined Undefined]
    by (intro r) (simp_all add: sample_supplied sample_given inRange_def phrases)
  show ?thesis using a b c d e f g by simp
qed

section \<open>Searching a string\<close>

lemma takeWhile_shorter:
  "c \<in> set xs \<Longrightarrow> length (takeWhile (\<lambda>x. x \<noteq> c) xs) < length xs"
  by (induction xs) auto

lemma indexOf_bounds:
  "indexOf s c start = Some i \<Longrightarrow> start \<le> i \<and> i < length s"
proof -
  assume h: "indexOf s c start = Some i"
  then have mem: "c \<in> set (drop start s)"
    and i: "i = start + length (takeWhile (\<lambda>x. x \<noteq> c) (drop start s))"
    by (auto simp: indexOf_def split: if_splits)
  have "length (takeWhile (\<lambda>x. x \<noteq> c) (drop start s)) < length (drop start s)"
    using mem by (rule takeWhile_shorter)
  then show ?thesis using i by auto
qed

section \<open>utils.substitute\<close>

lemma indexOf_None: "indexOf s c k = None \<longleftrightarrow> c \<notin> set (drop k s)"
  by (simp add: indexOf_def)

lemma indexOf_split:
  assumes "indexOf s c k = Some i"
  shows "k \<le> i \<and> i < length s \<and> s ! i = c \<and> c \<notin> set (slice s k i) \<and>
         drop k s = slice s k i @ c # drop (i + 1) s"
proof -
  let ?d = "drop k s"
  let ?tw = "takeWhile (\<lambda>x. x \<noteq> c) ?d"
  let ?dw = "dropWhile (\<lambda>x. x \<noteq> c) ?d"
  from assms have mem: "c \<in> set ?d" and i: "i = k + length ?tw"
    by (auto simp: indexOf_def split: if_splits)
  have lt: "length ?tw < length ?d" using mem by (rule takeWhile_shorter)
  have sl: "slice s k i = ?tw"
    unfolding slice_def i by (simp add: takeWhile_eq_take [symmetric])
  have "?dw \<noteq> []" using mem by simp
  moreover have "hd ?dw = c" using mem hd_dropWhile [of "\<lambda>x. x \<noteq> c" ?d] by auto
  ultimately have dw: "?dw = c # tl ?dw" by (cases ?dw) auto
  have dwd: "drop (length ?tw) ?d = ?dw" by (rule dropWhile_eq_drop [symmetric])
  have "drop (i + 1) s = drop 1 (drop (length ?tw) ?d)"
    by (simp add: i add.commute add.left_commute)
  then have rest: "drop (i + 1) s = tl ?dw"
    unfolding dwd by (simp add: drop_Suc)
  have dec: "?d = ?tw @ ?dw" by simp
  have nth: "s ! i = c"
  proof -
    have "s ! i = ?d ! length ?tw" using lt by (simp add: i)
    also have "\<dots> = ?dw ! 0" using dec by (metis nth_append_length_plus add.right_neutral)
    also have "\<dots> = c" using dw by (metis nth_Cons_0)
    finally show ?thesis .
  qed
  have "c \<notin> set ?tw" by (auto dest: set_takeWhileD)
  then show ?thesis
    using lt i sl dw rest dec nth by (auto simp: )
qed

lemma between_percent_signs:
  assumes "ss < length ns" and "ns ! ss = c" and "indexOf ns c (ss + 1) = Some se"
  shows "ns = take ss ns @ [c] @ slice ns (ss + 1) se @ [c] @ drop (se + 1) ns \<and>
         c \<notin> set (slice ns (ss + 1) se) \<and> ss < se \<and> se < length ns \<and> ns ! se = c"
proof -
  note sp = indexOf_split [OF assms(3)]
  have "ns = take ss ns @ ns ! ss # drop (ss + 1) ns"
    using assms(1) by (simp add: id_take_nth_drop)
  also have "drop (ss + 1) ns = slice ns (ss + 1) se @ c # drop (se + 1) ns"
    using sp by simp
  finally have "ns = take ss ns @ [c] @ slice ns (ss + 1) se @ [c] @ drop (se + 1) ns"
    using assms(2) by simp
  then show ?thesis using sp by auto
qed

lemma substitute_loop_fixed:
  assumes H: "\<forall>pre name post.
      ns = pre @ [CHR ''%''] @ name @ [CHR ''%''] @ post \<and> CHR ''%'' \<notin> set name
        \<longrightarrow> substitution props name = None"
  shows "ss < length ns \<Longrightarrow> ns ! ss = CHR ''%'' \<Longrightarrow> substitute_loop props ns ss = ns"
proof (induction "length ns - ss" arbitrary: ss rule: less_induct)
  case less
  show ?case
  proof (cases "indexOf ns (CHR ''%'') (ss + 1)")
    case None
    then show ?thesis by (subst substitute_loop.simps) simp
  next
    case (Some se)
    note b = between_percent_signs [OF less.prems Some]
    have "substitution props (slice ns (ss + 1) se) = None"
      using H b by blast
    moreover have "substitute_loop props ns se = ns"
      using b less.prems by (intro less.hyps) auto
    ultimately show ?thesis
      using Some by (subst substitute_loop.simps) simp
  qed
qed

lemma indexOf_append:
  "indexOf (pre @ ns) c (length pre + k) = map_option (\<lambda>i. length pre + i) (indexOf ns c k)"
  by (simp add: indexOf_def)

lemma slice_append: "slice (pre @ ns) (length pre + a) (length pre + b) = slice ns a b"
  by (simp add: slice_def)

lemma substitute_loop_prefix:
  "substitute_loop props (pre @ ns) (length pre + ss) = pre @ substitute_loop props ns ss"
proof (induction "length ns - ss" arbitrary: ns ss rule: less_induct)
  case less
  have i1: "indexOf (pre @ ns) (CHR ''%'') (length pre + ss + 1) =
            map_option (\<lambda>i. length pre + i) (indexOf ns (CHR ''%'') (ss + 1))"
    using indexOf_append [of pre ns "CHR ''%''" "ss + 1"] by (simp add: add.assoc)
  show ?case
  proof (cases "indexOf ns (CHR ''%'') (ss + 1)")
    case None
    then show ?thesis
      using i1 by (simp add: substitute_loop.simps [of props ns ss]
          substitute_loop.simps [of props "pre @ ns" "length pre + ss"])
  next
    case (Some se)
    note sp = indexOf_split [OF Some]
    have sl: "slice (pre @ ns) (length pre + ss + 1) (length pre + se) = slice ns (ss + 1) se"
      using slice_append [of pre ns "ss + 1" se] by (simp add: add.assoc)
    show ?thesis
    proof (cases "substitution props (slice ns (ss + 1) se)")
      case None
      have "substitute_loop props (pre @ ns) (length pre + se) = pre @ substitute_loop props ns se"
        using sp by (intro less.hyps) auto
      then show ?thesis
        using Some None i1 sl
        by (simp add: substitute_loop.simps [of props ns ss]
            substitute_loop.simps [of props "pre @ ns" "length pre + ss"])
    next
      case v: (Some v)
      let ?ns' = "take ss ns @ v @ drop (se + 1) ns"
      have tk: "take (length pre + ss) (pre @ ns) = pre @ take ss ns" by simp
      have dr: "drop (length pre + se + 1) (pre @ ns) = drop (se + 1) ns" by simp
      have i2: "indexOf (pre @ ?ns') (CHR ''%'') (length pre + ss + length v) =
                map_option (\<lambda>i. length pre + i) (indexOf ?ns' (CHR ''%'') (ss + length v))"
        using indexOf_append [of pre ?ns' "CHR ''%''" "ss + length v"] by (simp add: add.assoc)
      show ?thesis
      proof (cases "length ns \<le> se + 1")
        case True
        then show ?thesis
          using Some v i1 sl
          by (simp add: substitute_loop.simps [of props ns ss]
              substitute_loop.simps [of props "pre @ ns" "length pre + ss"])
      next
        case False
        show ?thesis
        proof (cases "indexOf ?ns' (CHR ''%'') (ss + length v)")
          case None
          then show ?thesis
            using Some v i1 sl False i2
            by (simp add: substitute_loop.simps [of props ns ss]
                substitute_loop.simps [of props "pre @ ns" "length pre + ss"])
        next
          case (Some ss')
          from indexOf_bounds [OF Some] have b2: "ss + length v \<le> ss'" "ss' < length ?ns'"
            by auto
          have "substitute_loop props (pre @ ?ns') (length pre + ss') =
                pre @ substitute_loop props ?ns' ss'"
            using sp b2 by (intro less.hyps) auto
          then show ?thesis
            using \<open>indexOf ns (CHR ''%'') (ss + 1) = Some se\<close> v i1 sl False i2 Some
            by (simp add: substitute_loop.simps [of props ns ss]
                substitute_loop.simps [of props "pre @ ns" "length pre + ss"])
        qed
      qed
    qed
  qed
qed

lemma substitute_no_percent:
  "CHR ''%'' \<notin> set s \<Longrightarrow> substitute (Str s) (Obj props) = Str s"
  by (simp add: substitute_def indexOf_def)

lemma substitute_is_string: "\<exists>s'. substitute (Str s) sb = Str s'"
  by (auto simp: substitute_def split: option.splits)

lemma takeWhile_all: "c \<notin> set pre \<Longrightarrow> takeWhile (\<lambda>x. x \<noteq> c) (pre @ c # rest) = pre"
  by (induction pre) auto

lemma indexOf_first: "c \<notin> set pre \<Longrightarrow> indexOf (pre @ c # rest) c 0 = Some (length pre)"
  by (simp add: indexOf_def takeWhile_all)

lemma substitute_token:
  assumes pre: "CHR ''%'' \<notin> set pre" and name: "CHR ''%'' \<notin> set name"
    and v: "substitution props name = Some v"
  shows "\<exists>rest'. substitute (Str rest) (Obj props) = Str rest' \<and>
           substitute (Str (pre @ [CHR ''%''] @ name @ [CHR ''%''] @ rest)) (Obj props) =
             Str (pre @ v @ rest')"
proof -
  let ?X = "CHR ''%'' # name @ CHR ''%'' # rest"
  have first: "indexOf (pre @ ?X) (CHR ''%'') 0 = Some (length pre)"
    using pre by (rule indexOf_first)
  have pl: "substitute_loop props (pre @ ?X) (length pre + 0) = pre @ substitute_loop props ?X 0"
    by (rule substitute_loop_prefix)
  have whole: "substitute (Str (pre @ ?X)) (Obj props) = Str (pre @ substitute_loop props ?X 0)"
    using first pl by (simp add: substitute_def)
  have se: "indexOf ?X (CHR ''%'') (0 + 1) = Some (length name + 1)"
    using name indexOf_first [of "CHR ''%''" name rest]
    by (simp add: indexOf_def)
  have sl: "slice ?X (0 + 1) (length name + 1) = name" by (simp add: slice_def)
  have dr: "drop (length name + 1 + 1) ?X = rest" by simp
  have "\<exists>rest'. substitute (Str rest) (Obj props) = Str rest' \<and>
          substitute_loop props ?X 0 = v @ rest'"
  proof (cases "rest = []")
    case True
    then have "substitute_loop props ?X 0 = v"
      using se sl v by (subst substitute_loop.simps) simp
    then show ?thesis using True by (simp add: substitute_no_percent)
  next
    case False
    then have long: "\<not> length ?X \<le> length name + 1 + 1" by simp
    have i2: "indexOf (v @ rest) (CHR ''%'') (length v + 0) =
              map_option (\<lambda>i. length v + i) (indexOf rest (CHR ''%'') 0)"
      by (rule indexOf_append)
    show ?thesis
    proof (cases "indexOf rest (CHR ''%'') 0")
      case None
      then have "substitute_loop props ?X 0 = v @ rest"
        using se sl v long i2 dr by (subst substitute_loop.simps) simp
      moreover have "substitute (Str rest) (Obj props) = Str rest"
        using None by (simp add: substitute_def)
      ultimately show ?thesis by simp
    next
      case (Some i)
      have "substitute_loop props (v @ rest) (length v + i) = v @ substitute_loop props rest i"
        by (rule substitute_loop_prefix)
      then have "substitute_loop props ?X 0 = v @ substitute_loop props rest i"
        using se sl v long i2 dr Some by (subst substitute_loop.simps) simp
      moreover have "substitute (Str rest) (Obj props) = Str (substitute_loop props rest i)"
        using Some by (simp add: substitute_def)
      ultimately show ?thesis by simp
    qed
  qed
  then show ?thesis using whole by auto
qed

lemma indexOf_Some_iff_mem: "c \<in> set (drop k s) \<Longrightarrow> \<exists>i. indexOf s c k = Some i"
  by (simp add: indexOf_def)

lemma indexOf_least:
  assumes "indexOf s c k = Some i" and "k \<le> j" and "j < length s" and "s ! j = c"
  shows "i \<le> j"
proof (rule ccontr)
  assume "\<not> i \<le> j"
  then have ji: "j < i" by simp
  note sp = indexOf_split [OF assms(1)]
  have kb: "k \<le> i" "i < length s" using sp by auto
  have "slice s k i ! (j - k) = s ! j"
    using ji assms(2) kb by (simp add: slice_def)
  moreover have "j - k < length (slice s k i)"
    using ji assms(2) kb by (simp add: slice_def)
  ultimately have "s ! j \<in> set (slice s k i)" by (metis nth_mem)
  then show False using sp assms(4) by simp
qed

lemma substitute_loop_skip:
  assumes H: "\<forall>a b c. take (p + 1) ns = a @ [CHR ''%''] @ b @ [CHR ''%''] @ c \<and> CHR ''%'' \<notin> set b
                \<longrightarrow> substitution props b = None"
    and p: "p < length ns" "ns ! p = CHR ''%''"
  shows "ss \<le> p \<Longrightarrow> ns ! ss = CHR ''%'' \<Longrightarrow>
         substitute_loop props ns ss = substitute_loop props ns p"
proof (induction "p - ss" arbitrary: ss rule: less_induct)
  case less
  show ?case
  proof (cases "ss = p")
    case True
    then show ?thesis by simp
  next
    case False
    then have lt: "ss < p" using less.prems by simp
    have "CHR ''%'' \<in> set (drop (ss + 1) ns)"
      using lt p by (auto simp: in_set_conv_nth intro!: exI [of _ "p - (ss + 1)"])
    then obtain se where se: "indexOf ns (CHR ''%'') (ss + 1) = Some se"
      using indexOf_Some_iff_mem by blast
    have sep: "se \<le> p"
      using indexOf_least [OF se _ p] lt by simp
    have ssl: "ss < length ns" using lt p by simp
    note b = between_percent_signs [OF ssl less.prems(2) se]
    obtain A B R where A: "A = take ss ns" and B: "B = slice ns (ss + 1) se"
      and R: "R = drop (se + 1) ns" by blast
    have eq: "ns = (A @ [CHR ''%''] @ B @ [CHR ''%'']) @ R"
      using b A B R by simp
    have bb: "ss < se" "se < length ns" using b by auto
    have len: "length (A @ [CHR ''%''] @ B @ [CHR ''%'']) = se + 1"
      using bb ssl by (simp add: A B slice_def)
    have "take (se + 1) ns = A @ [CHR ''%''] @ B @ [CHR ''%'']"
      using eq len by (metis append_eq_conv_conj)
    moreover have "take (p + 1) ns = take (se + 1) ns @ take (p - se) (drop (se + 1) ns)"
      using sep take_add [of "se + 1" "p - se" ns] by simp
    ultimately have "take (p + 1) ns = A @ [CHR ''%''] @ B @ [CHR ''%''] @ take (p - se) R"
      by (simp add: R)
    then have none: "substitution props (slice ns (ss + 1) se) = None"
      using H b B by blast
    have "substitute_loop props ns se = substitute_loop props ns p"
      using b sep by (intro less.hyps) auto
    then show ?thesis
      using se none by (subst substitute_loop.simps) simp
  qed
qed

lemma indexOf_at_percent:
  "CHR ''%'' \<in> set s \<Longrightarrow> \<exists>ss. indexOf s (CHR ''%'') 0 = Some ss \<and> ss < length s \<and> s ! ss = CHR ''%''"
proof -
  assume "CHR ''%'' \<in> set s"
  then obtain ss where "indexOf s (CHR ''%'') 0 = Some ss"
    using indexOf_Some_iff_mem [of "CHR ''%''" 0 s] by auto
  then show ?thesis using indexOf_split by blast
qed

lemma substitute_token_general:
  assumes H: "\<forall>a b c. pre @ [CHR ''%''] = a @ [CHR ''%''] @ b @ [CHR ''%''] @ c \<and> CHR ''%'' \<notin> set b
                \<longrightarrow> substitution props b = None"
    and name: "CHR ''%'' \<notin> set name"
    and v: "substitution props name = Some v"
  shows "\<exists>rest'. substitute (Str rest) (Obj props) = Str rest' \<and>
           substitute (Str (pre @ [CHR ''%''] @ name @ [CHR ''%''] @ rest)) (Obj props) =
             Str (pre @ v @ rest')"
proof -
  let ?X = "CHR ''%'' # name @ CHR ''%'' # rest"
  let ?ns = "pre @ ?X"
  have tk: "take (length pre + 1) ?ns = pre @ [CHR ''%'']" by simp
  have p: "length pre < length ?ns" "?ns ! length pre = CHR ''%''" by simp_all
  obtain ss where ss: "indexOf ?ns (CHR ''%'') 0 = Some ss" "ss < length ?ns" "?ns ! ss = CHR ''%''"
    using indexOf_at_percent [of ?ns] by auto
  have le: "ss \<le> length pre"
    using indexOf_least [OF ss(1) _ p] by simp
  have skip: "substitute_loop props ?ns ss = substitute_loop props ?ns (length pre)"
    using H le ss(3) by (intro substitute_loop_skip [OF _ p]) (simp_all only: tk)
  have pl: "substitute_loop props ?ns (length pre + 0) = pre @ substitute_loop props ?X 0"
    by (rule substitute_loop_prefix)
  have whole: "substitute (Str ?ns) (Obj props) = Str (pre @ substitute_loop props ?X 0)"
    using ss(1) skip pl by (simp add: substitute_def)
  have tok: "\<exists>rest'. substitute (Str rest) (Obj props) = Str rest' \<and>
           substitute (Str ([] @ [CHR ''%''] @ name @ [CHR ''%''] @ rest)) (Obj props) =
             Str ([] @ v @ rest')"
    using name v by (intro substitute_token) auto
  have "substitute (Str ?X) (Obj props) = Str (substitute_loop props ?X 0)"
    by (simp add: substitute_def indexOf_def)
  then show ?thesis using tok whole by auto
qed

lemma no_substitution:
  "\<not> (name \<noteq> [] \<and> is_string (jsget props name)) \<Longrightarrow> substitution props name = None"
  by (auto simp: substitution_def split: jsval.splits)

text \<open>
  Claim C9. \<open>substitute\<close> returns a string unchanged when no pair of percent signs in
  it encloses a name that is a string-valued key of \<open>subs\<close>, so unknown tokens stay in
  place; it returns an input that is not a string unchanged; and a value put in is
  not scanned again: when \<open>%name%\<close> is the first token of a string that has a value,
  the result is the text before it (with the unknown tokens in it), the value, and the
  result of the rest of the string on its own.
\<close>

theorem substitute_fixed_point:
  "((\<forall>pre name post.
       s = pre @ [CHR ''%''] @ name @ [CHR ''%''] @ post \<and> CHR ''%'' \<notin> set name
         \<longrightarrow> \<not> (name \<noteq> [] \<and> is_string (jsget props name)))
     \<longrightarrow> substitute (Str s) (Obj props) = Str s) \<and>
   (\<not> is_string orig \<longrightarrow> substitute orig sb = orig) \<and>
   ((\<forall>a b c.
       before @ [CHR ''%''] = a @ [CHR ''%''] @ b @ [CHR ''%''] @ c \<and> CHR ''%'' \<notin> set b
         \<longrightarrow> \<not> (b \<noteq> [] \<and> is_string (jsget props b))) \<and>
    CHR ''%'' \<notin> set token \<and> token \<noteq> [] \<and> jsget props token = Str v
     \<longrightarrow> (\<exists>rest'. substitute (Str rest) (Obj props) = Str rest' \<and>
            substitute (Str (before @ [CHR ''%''] @ token @ [CHR ''%''] @ rest)) (Obj props) =
              Str (before @ v @ rest')))"
proof (intro conjI impI)
  assume H: "\<forall>pre name post.
       s = pre @ [CHR ''%''] @ name @ [CHR ''%''] @ post \<and> CHR ''%'' \<notin> set name
         \<longrightarrow> \<not> (name \<noteq> [] \<and> is_string (jsget props name))"
  have H': "\<forall>pre name post.
       s = pre @ [CHR ''%''] @ name @ [CHR ''%''] @ post \<and> CHR ''%'' \<notin> set name
         \<longrightarrow> substitution props name = None"
    using H no_substitution by blast
  show "substitute (Str s) (Obj props) = Str s"
  proof (cases "indexOf s (CHR ''%'') 0")
    case None
    then show ?thesis by (simp add: substitute_def)
  next
    case (Some ss)
    note sp = indexOf_split [OF Some]
    have "substitute_loop props s ss = s"
      using sp by (intro substitute_loop_fixed [OF H']) auto
    then show ?thesis using Some by (simp add: substitute_def)
  qed
next
  assume "\<not> is_string orig"
  then show "substitute orig sb = orig"
    by (cases orig) (auto simp: substitute_def)
next
  assume a: "(\<forall>a b c.
       before @ [CHR ''%''] = a @ [CHR ''%''] @ b @ [CHR ''%''] @ c \<and> CHR ''%'' \<notin> set b
         \<longrightarrow> \<not> (b \<noteq> [] \<and> is_string (jsget props b))) \<and>
    CHR ''%'' \<notin> set token \<and> token \<noteq> [] \<and> jsget props token = Str v"
  then have H: "\<forall>a b c.
       before @ [CHR ''%''] = a @ [CHR ''%''] @ b @ [CHR ''%''] @ c \<and> CHR ''%'' \<notin> set b
         \<longrightarrow> substitution props b = None"
    using no_substitution by blast
  have "substitution props token = Some v" using a by (simp add: substitution_def)
  then show "\<exists>rest'. substitute (Str rest) (Obj props) = Str rest' \<and>
            substitute (Str (before @ [CHR ''%''] @ token @ [CHR ''%''] @ rest)) (Obj props) =
              Str (before @ v @ rest')"
    using a H by (intro substitute_token_general) auto
qed

theorem substitute_fixed_point_witness:
  "substitute (Str ''a%x%b'') (Obj [(''y'', Str ''Q'')]) = Str ''a%x%b'' \<and>
   substitute (Num (Fin 1)) (Obj [(''y'', Str ''Q'')]) = Num (Fin 1) \<and>
   substitute (Str ''%u%x%y%b'') (Obj [(''y'', Str ''%y%'')]) = Str ''%u%x%y%b''"
proof (intro conjI)
  have "\<forall>pre name post.
       ''a%x%b'' = pre @ [CHR ''%''] @ name @ [CHR ''%''] @ post \<and> CHR ''%'' \<notin> set name
         \<longrightarrow> \<not> (name \<noteq> [] \<and> is_string (jsget [(''y'', Str ''Q'')] name))"
  proof (intro allI impI)
    fix pre name post :: string
    assume a: "''a%x%b'' = pre @ [CHR ''%''] @ name @ [CHR ''%''] @ post \<and> CHR ''%'' \<notin> set name"
    have "name \<noteq> ''y''"
    proof
      assume "name = ''y''"
      then have "CHR ''y'' \<in> set (pre @ [CHR ''%''] @ name @ [CHR ''%''] @ post)" by simp
      then have "CHR ''y'' \<in> set ''a%x%b''" using a by metis
      then show False by simp
    qed
    then show "\<not> (name \<noteq> [] \<and> is_string (jsget [(''y'', Str ''Q'')] name))"
      by (auto simp: jsget_def)
  qed
  then show "substitute (Str ''a%x%b'') (Obj [(''y'', Str ''Q'')]) = Str ''a%x%b''"
    using substitute_fixed_point [of "''a%x%b''" "[(''y'', Str ''Q'')]"] by blast
next
  have "\<not> is_string (Num (Fin 1))" by simp
  then show "substitute (Num (Fin 1)) (Obj [(''y'', Str ''Q'')]) = Num (Fin 1)"
    using substitute_fixed_point [of _ _ "Num (Fin 1)" "Obj [(''y'', Str ''Q'')]"] by blast
next
  have b: "substitute (Str ''b'') (Obj [(''y'', Str ''%y%'')]) = Str ''b''"
    by (simp add: substitute_def indexOf_def)
  have u: "\<forall>a b c.
       ''%u%x'' @ [CHR ''%''] = a @ [CHR ''%''] @ b @ [CHR ''%''] @ c \<and> CHR ''%'' \<notin> set b
         \<longrightarrow> \<not> (b \<noteq> [] \<and> is_string (jsget [(''y'', Str ''%y%'')] b))"
  proof (intro allI impI)
    fix a b c :: string
    assume e: "''%u%x'' @ [CHR ''%''] = a @ [CHR ''%''] @ b @ [CHR ''%''] @ c \<and> CHR ''%'' \<notin> set b"
    have "b \<noteq> ''y''"
    proof
      assume "b = ''y''"
      then have "CHR ''y'' \<in> set (a @ [CHR ''%''] @ b @ [CHR ''%''] @ c)" by simp
      then have "CHR ''y'' \<in> set (''%u%x'' @ [CHR ''%''])" using e by metis
      then show False by simp
    qed
    then show "\<not> (b \<noteq> [] \<and> is_string (jsget [(''y'', Str ''%y%'')] b))"
      by (auto simp: jsget_def)
  qed
  have "CHR ''%'' \<notin> set ''y'' \<and> ''y'' \<noteq> [] \<and> jsget [(''y'', Str ''%y%'')] ''y'' = Str ''%y%''"
    by (simp add: jsget_def)
  then have "\<exists>rest'. substitute (Str ''b'') (Obj [(''y'', Str ''%y%'')]) = Str rest' \<and>
      substitute (Str (''%u%x'' @ [CHR ''%''] @ ''y'' @ [CHR ''%''] @ ''b''))
        (Obj [(''y'', Str ''%y%'')]) = Str (''%u%x'' @ ''%y%'' @ rest')"
    using u substitute_fixed_point
      [of _ "[(''y'', Str ''%y%'')]" _ _ "''%u%x''" "''y''" "''%y%''" "''b''"]
    by blast
  then show "substitute (Str ''%u%x%y%b'') (Obj [(''y'', Str ''%y%'')]) = Str ''%u%x%y%b''"
    using b by auto
qed

section \<open>utils.mergeHeaders\<close>

lemma hasOwnProperty_builtin:
  "map_of obj ''hasOwnProperty'' = None \<Longrightarrow> hasOwnProperty_call obj h = Inr True"
  by (simp add: hasOwnProperty_call_def)

lemma copyHeaders_fails:
  assumes "map_of obj ''hasOwnProperty'' = None"
  shows "(\<exists>e. copyHeaders valid obj props mh = Inl e) \<longleftrightarrow> (\<exists>(h, v) \<in> set props. \<not> valid v)"
proof (induction props arbitrary: mh)
  case Nil
  show ?case by simp
next
  case (Cons p rest)
  obtain h v where p: "p = (h, v)" by (cases p)
  show ?case
  proof (cases "valid v")
    case True
    then show ?thesis
      using Cons.IH [of "assignHeader (toLowerCase h) v mh"]
      by (simp add: p hasOwnProperty_builtin [OF assms])
  next
    case False
    then show ?thesis by (simp add: p hasOwnProperty_builtin [OF assms])
  qed
qed

lemma copyHeaders_result:
  assumes "map_of obj ''hasOwnProperty'' = None"
  shows "list_all (\<lambda>(h, v). toLowerCase h \<noteq> ''__proto__'') props \<Longrightarrow>
         copyHeaders valid obj props mh = Inr r \<Longrightarrow> map_of r = map_of mh ++ lowerCased props"
proof (induction props arbitrary: mh)
  case Nil
  then show ?case by (simp add: lowerCased_def)
next
  case (Cons p rest)
  obtain h v where p: "p = (h, v)" by (cases p)
  from Cons.prems(1) p have n: "toLowerCase h \<noteq> ''__proto__''"
    and nr: "list_all (\<lambda>(h, v). toLowerCase h \<noteq> ''__proto__'') rest"
    by auto
  from Cons.prems(2) p have ok: "valid v"
    and r: "copyHeaders valid obj rest (AList.update (toLowerCase h) v mh) = Inr r"
    using n by (auto simp: hasOwnProperty_builtin [OF assms] assignHeader_def split: if_splits)
  have "map_of r = (map_of mh)(toLowerCase h \<mapsto> v) ++ lowerCased rest"
    using Cons.IH [OF nr r] by (simp only: update_conv')
  also have "\<dots> = map_of mh ++ ([toLowerCase h \<mapsto> v] ++ lowerCased rest)"
    by (rule ext) (simp add: map_add_def split: option.splits)
  also have "[toLowerCase h \<mapsto> v] ++ lowerCased rest = lowerCased (p # rest)"
    by (simp add: lowerCased_def p map_of_append)
  finally show ?case .
qed

lemma copyHeaders_succeeds:
  "map_of obj ''hasOwnProperty'' = None \<Longrightarrow> \<not> (\<exists>(h, v) \<in> set props. \<not> valid v) \<Longrightarrow>
   \<exists>r. copyHeaders valid obj props mh = Inr r"
  using copyHeaders_fails [of obj valid props mh]
  by (cases "copyHeaders valid obj props mh") auto

lemma mergeHeaders_absent_base:
  "\<not> is_object base \<Longrightarrow> mergeHeaders base extra = mergeHeaders (Obj []) extra"
  by (simp add: mergeHeaders_def)

lemma mergeHeaders_absent_extra:
  "\<not> is_object extra \<Longrightarrow> mergeHeaders base extra = mergeHeaders base (Obj [])"
  by (cases base) (auto simp: mergeHeaders_def split: sum.splits)

lemma own_props_absent: "\<not> is_object v \<Longrightarrow> own_props v = []"
  by (cases v) auto

lemma mergeHeaders_throws:
  assumes "map_of (own_props base) ''hasOwnProperty'' = None"
    and "map_of (own_props extra) ''hasOwnProperty'' = None"
  shows "(\<exists>e. mergeHeaders base extra = Inl e) \<longleftrightarrow>
     (\<exists>(h, v) \<in> set (own_props base). \<not> is_string v) \<or>
     (\<exists>(h, v) \<in> set (own_props extra). \<not> (is_string v \<or> is_number v))"
proof (cases "\<exists>(h, v) \<in> set (own_props base). \<not> is_string v")
  case True
  then have o: "is_object base" by (cases base) auto
  from True obtain e where
    "copyHeaders is_string (own_props base) (own_props base) [] = Inl e"
    using copyHeaders_fails [OF assms(1), of is_string "own_props base" "[]"] by blast
  then show ?thesis using True o by (simp add: mergeHeaders_def)
next
  case False
  then obtain mh where mh: "copyHeaders is_string (own_props base) (own_props base) [] = Inr mh"
    using copyHeaders_succeeds [OF assms(1)] by blast
  have first: "(if is_object base
                then copyHeaders is_string (own_props base) (own_props base) []
                else Inr []) =
               Inr (if is_object base then mh else [])"
    using mh by simp
  show ?thesis
  proof (cases "is_object extra")
    case True
    then show ?thesis
      using False first
        copyHeaders_fails [OF assms(2), of "\<lambda>v. is_string v \<or> is_number v" "own_props extra"
          "if is_object base then mh else []"]
      by (simp add: mergeHeaders_def)
  next
    case nx: False
    then show ?thesis
      using False first by (simp add: mergeHeaders_def own_props_absent)
  qed
qed

text \<open>
  What holds of \<open>mergeHeaders\<close>. An argument that is \<open>null\<close>, undefined or not an
  object counts as an empty map, and \<open>HostTable\<close> gets the host's own headers merged
  with nothing when the default header map is undefined. For header objects whose
  names keep clear of \<open>Object.prototype\<close>, the result is the copy of the other
  argument with its names in small letters, and the function throws exactly when a
  value of \<open>base\<close> is not a string or a value of \<open>extra\<close> is neither a string nor a
  number.
\<close>

lemma mergeHeaders_absent_arguments:
  "(\<not> is_object base \<longrightarrow> mergeHeaders base extra = mergeHeaders (Obj []) extra) \<and>
   (\<not> is_object extra \<longrightarrow> mergeHeaders base extra = mergeHeaders base (Obj [])) \<and>
   (\<not> is_object base \<and> \<not> is_object extra \<longrightarrow> mergeHeaders base extra = Inr []) \<and>
   (\<not> is_object dflt \<longrightarrow>
      mergedOrNull dflt extra =
        (if is_object extra
         then (case mergeHeaders (Obj []) extra of Inl e \<Rightarrow> Inl e | Inr mh \<Rightarrow> Inr (Obj mh))
         else Inr Null))"
proof (intro conjI impI)
  assume "\<not> is_object base"
  then show "mergeHeaders base extra = mergeHeaders (Obj []) extra"
    by (rule mergeHeaders_absent_base)
next
  assume "\<not> is_object extra"
  then show "mergeHeaders base extra = mergeHeaders base (Obj [])"
    by (rule mergeHeaders_absent_extra)
next
  assume "\<not> is_object base \<and> \<not> is_object extra"
  then show "mergeHeaders base extra = Inr []" by (simp add: mergeHeaders_def)
next
  assume "\<not> is_object dflt"
  then show "mergedOrNull dflt extra =
        (if is_object extra
         then (case mergeHeaders (Obj []) extra of Inl e \<Rightarrow> Inl e | Inr mh \<Rightarrow> Inr (Obj mh))
         else Inr Null)"
    by (simp add: mergedOrNull_def mergeHeaders_absent_base)
qed

lemma mergeHeaders_plain_names:
  assumes "plainNames (own_props base)" and "plainNames (own_props extra)"
  shows
  "(\<not> is_object base \<and> (\<forall>(h, v) \<in> set (own_props extra). is_string v \<or> is_number v) \<longrightarrow>
      (\<exists>mh. mergeHeaders base extra = Inr mh \<and> map_of mh = lowerCased (own_props extra))) \<and>
   (\<not> is_object extra \<and> (\<forall>(h, v) \<in> set (own_props base). is_string v) \<longrightarrow>
      (\<exists>mh. mergeHeaders base extra = Inr mh \<and> map_of mh = lowerCased (own_props base))) \<and>
   ((\<exists>e. mergeHeaders base extra = Inl e) \<longleftrightarrow>
      (\<exists>(h, v) \<in> set (own_props base). \<not> is_string v) \<or>
      (\<exists>(h, v) \<in> set (own_props extra). \<not> (is_string v \<or> is_number v)))"
proof (intro conjI impI)
  have hb: "map_of (own_props base) ''hasOwnProperty'' = None"
    and he: "map_of (own_props extra) ''hasOwnProperty'' = None"
    and pb: "list_all (\<lambda>(h, v). toLowerCase h \<noteq> ''__proto__'') (own_props base)"
    and pe: "list_all (\<lambda>(h, v). toLowerCase h \<noteq> ''__proto__'') (own_props extra)"
    using assms by (simp_all add: plainNames_def)
  {
    assume a: "\<not> is_object base \<and>
      (\<forall>(h, v) \<in> set (own_props extra). is_string v \<or> is_number v)"
    then obtain mh where mh:
      "copyHeaders (\<lambda>v. is_string v \<or> is_number v) (own_props extra) (own_props extra) [] =
         Inr mh"
      using copyHeaders_succeeds [OF he, of "own_props extra"
          "\<lambda>v. is_string v \<or> is_number v" "[]"]
      by auto
    have "mergeHeaders base extra = Inr mh"
      using a mh by (cases "is_object extra") (auto simp: mergeHeaders_def own_props_absent)
    moreover have "map_of mh = lowerCased (own_props extra)"
      using copyHeaders_result [OF he pe mh] by simp
    ultimately show
      "\<exists>mh. mergeHeaders base extra = Inr mh \<and> map_of mh = lowerCased (own_props extra)"
      by blast
  }
  {
    assume a: "\<not> is_object extra \<and> (\<forall>(h, v) \<in> set (own_props base). is_string v)"
    then obtain mh where mh:
      "copyHeaders is_string (own_props base) (own_props base) [] = Inr mh"
      using copyHeaders_succeeds [OF hb, of "own_props base" is_string "[]"] by auto
    have "mergeHeaders base extra = Inr mh"
      using a mh by (cases "is_object base") (auto simp: mergeHeaders_def own_props_absent)
    moreover have "map_of mh = lowerCased (own_props base)"
      using copyHeaders_result [OF hb pb mh] by simp
    ultimately show
      "\<exists>mh. mergeHeaders base extra = Inr mh \<and> map_of mh = lowerCased (own_props base)"
      by blast
  }
  show "(\<exists>e. mergeHeaders base extra = Inl e) \<longleftrightarrow>
      (\<exists>(h, v) \<in> set (own_props base). \<not> is_string v) \<or>
      (\<exists>(h, v) \<in> set (own_props extra). \<not> (is_string v \<or> is_number v))"
    by (rule mergeHeaders_throws [OF hb he])
qed

lemma lower_header: "toLowerCase ''X-A'' = ''x-a''" "toLowerCase ''__PROTO__'' = ''__proto__''"
  "toLowerCase ''hasOwnProperty'' = ''hasownproperty''"
  by code_simp+

lemma mergeHeaders_sample:
  "mergeHeaders Undefined (Obj [(''X-A'', Str ''1'')]) = Inr [(''x-a'', Str ''1'')]"
  by (simp add: mergeHeaders_def hasOwnProperty_call_def assignHeader_def lower_header)

text \<open>
  Claim C10. \<open>mergeHeaders\<close> is to throw only when a value of \<open>base\<close> is not a
  string or a value of \<open>extra\<close> is neither a string nor a number, and with an absent
  \<open>base\<close> the result is to be the copy of \<open>extra\<close> with its names in small letters.
  The header object \<open>{hasOwnProperty: 'x'}\<close> has string values only; but the loop
  calls \<open>base.hasOwnProperty(h)\<close>, which is now a call of the string \<open>'x'\<close>: a
  TypeError. And of the header object \<open>{'__PROTO__': 'x'}\<close> nothing is copied: the
  name falls on \<open>__proto__\<close>, under which the assignment to \<open>mh\<close> stores nothing,
  where the copy in small letters holds \<open>'x'\<close> under that name.
\<close>

theorem mergeHeaders_prototype_names:
  "is_string (Str ''x'') \<and>
   mergeHeaders (Obj [(''hasOwnProperty'', Str ''x'')]) Undefined =
     Inl (NotAFunction ''hasOwnProperty'') \<and>
   mergeHeaders Undefined (Obj [(''hasOwnProperty'', Str ''x'')]) =
     Inl (NotAFunction ''hasOwnProperty'') \<and>
   mergeHeaders Undefined (Obj [(''__PROTO__'', Str ''x'')]) = Inr [] \<and>
   lowerCased [(''__PROTO__'', Str ''x'')] ''__proto__'' = Some (Str ''x'') \<and>
   mergedOrNull Undefined (Obj [(''__PROTO__'', Str ''x'')]) = Inr (Obj [])"
  by (simp add: mergeHeaders_def mergedOrNull_def hasOwnProperty_call_def assignHeader_def
      lowerCased_def lower_header)

end
